theory Spec2Isabelle
  imports Main
begin

section \<open>Strings of the host language\<close>

text \<open>
  The server is TypeScript; its strings are sequences of UTF-16 code units. A string is
  modelled here by the list of its code units, for the code units below 256 (the type
  \<^typ>\<open>char\<close>), read as the code points U+0000 to U+00FF. On this range every
  primitive used by the server (\<^verbatim>\<open>toLowerCase\<close>, \<^verbatim>\<open>trim\<close>, the regular
  expression classes \<^verbatim>\<open>\s\<close>, \<^verbatim>\<open>\S\<close>, \<^verbatim>\<open>\b\<close>) acts unit by unit, and the
  definitions below give its exact result.
\<close>

definition code :: "char \<Rightarrow> nat" where
  "code c = of_char c"

text \<open>
  \<^verbatim>\<open>\s\<close> and \<^verbatim>\<open>trim\<close> use the same set: TAB, LF, VT, FF, CR, SPACE and NO-BREAK SPACE
  are its members below U+0100.
\<close>

definition isSpace :: "char \<Rightarrow> bool" where
  "isSpace c = (code c = 9 \<or> code c = 10 \<or> code c = 11 \<or> code c = 12 \<or> code c = 13
     \<or> code c = 32 \<or> code c = 160)"

text \<open>The word characters of \<^verbatim>\<open>\b\<close> (no unicode flag): \<^verbatim>\<open>[A-Za-z0-9_]\<close>.\<close>

definition isUpperAZ :: "char \<Rightarrow> bool" where
  "isUpperAZ c = (65 \<le> code c \<and> code c \<le> 90)"

definition isLowerAZ :: "char \<Rightarrow> bool" where
  "isLowerAZ c = (97 \<le> code c \<and> code c \<le> 122)"

definition isDigit :: "char \<Rightarrow> bool" where
  "isDigit c = (48 \<le> code c \<and> code c \<le> 57)"

definition isWord :: "char \<Rightarrow> bool" where
  "isWord c = (isUpperAZ c \<or> isLowerAZ c \<or> isDigit c \<or> c = CHR ''_'')"

text \<open>
  \<^verbatim>\<open>toLowerCase\<close>: below U+0100 the letters with a lower-case partner are A to Z and
  U+00C0 to U+00DE without the multiplication sign U+00D7; the partner is 32 units up.
\<close>

definition toLowerChar :: "char \<Rightarrow> char" where
  "toLowerChar c =
     (if isUpperAZ c \<or> (192 \<le> code c \<and> code c \<le> 222 \<and> code c \<noteq> 215)
      then char_of (code c + 32) else c)"

definition toLowerCase :: "string \<Rightarrow> string" where
  "toLowerCase s = map toLowerChar s"

definition trim :: "string \<Rightarrow> string" where
  "trim s = rev (dropWhile isSpace (rev (dropWhile isSpace s)))"

definition startsWith :: "string \<Rightarrow> string \<Rightarrow> bool" where
  "startsWith s pat = (take (length pat) s = pat)"

fun includesStr :: "string \<Rightarrow> string \<Rightarrow> bool" where
  "includesStr [] pat = (pat = [])"
| "includesStr (c # cs) pat = (startsWith (c # cs) pat \<or> includesStr cs pat)"

text \<open>\<^verbatim>\<open>Array.prototype.join(" ")\<close>.\<close>

fun joinSp :: "string list \<Rightarrow> string" where
  "joinSp [] = []"
| "joinSp [x] = x"
| "joinSp (x # y # ys) = x @ '' '' @ joinSp (y # ys)"

section \<open>Segment splitter\<close>

text \<open>
  \<^verbatim>\<open>if (buf.trim()) parts.push(buf.trim())\<close>: the buffer is pushed when its trimmed
  form is a non-empty string.
\<close>

definition flush :: "string \<Rightarrow> string list \<Rightarrow> string list" where
  "flush buf parts = (if trim buf \<noteq> [] then parts @ [trim buf] else parts)"

text \<open>
  The loop of \<^verbatim>\<open>splitPipelines\<close>. The first argument is \<^verbatim>\<open>cmd.slice(i)\<close>, the part of
  the input from the index \<^verbatim>\<open>i\<close> on; \<^verbatim>\<open>buf\<close> and \<^verbatim>\<open>parts\<close> are the loop's variables.
\<close>

function splitLoop :: "string \<Rightarrow> string \<Rightarrow> string list \<Rightarrow> string list" where
  "splitLoop [] buf parts = flush buf parts"
| "splitLoop (ch # rest) buf parts =
     (let two = take 2 (ch # rest) in
      if two = ''&&'' \<or> two = ''||'' then splitLoop (tl rest) [] (flush buf parts @ [two])
      else if ch = CHR ''|'' then splitLoop rest [] (flush buf parts @ [''|''])
      else if ch = CHR '';'' then splitLoop rest [] (flush buf parts @ ['';''])
      else splitLoop rest (buf @ [ch]) parts)"
  by pat_completeness auto
termination
  by (relation "measure (\<lambda>(s, buf, parts). length s)") auto

definition splitPipelines :: "string \<Rightarrow> string list" where
  "splitPipelines cmd = splitLoop cmd [] []"

text \<open>A string holds a separator when one of the four occurs in it.\<close>

definition hasSeparator :: "string \<Rightarrow> bool" where
  "hasSeparator s = (includesStr s ''&&'' \<or> includesStr s ''||'' \<or> includesStr s ''|''
     \<or> includesStr s '';'')"

text \<open>
  The result is a list of plain strings. The command-line translator tells the two kinds
  of element apart by membership in the separator list; the same test gives the typed
  view of the sequence.
\<close>

definition separators :: "string list" where
  "separators = [''&&'', ''||'', ''|'', '';'']"

text \<open>
  What an element of the sequence is: one of the four separators, or a fragment, a
  non-empty string that trimming leaves as it is.
\<close>

definition isSegment :: "string \<Rightarrow> bool" where
  "isSegment seg = (seg \<in> set separators \<or> (seg \<noteq> [] \<and> trim seg = seg))"

datatype segment = Fragment string | Separator string

definition classify :: "string \<Rightarrow> segment" where
  "classify seg = (if seg \<in> set separators then Separator seg else Fragment seg)"

section \<open>Per-segment translator\<close>

datatype os = windows | linux | darwin

text \<open>
  The translation table is parsed JSON. \<^verbatim>\<open>base\<close> is an object; it is modelled by the
  list of its properties in the order of \<^verbatim>\<open>Object.keys\<close>, the order the scan for a direct
  match follows. The value of a key gives each OS a string or nothing (\<^verbatim>\<open>base[key]?.[os]\<close>
  is \<^verbatim>\<open>undefined\<close> for a missing entry). A table without \<^verbatim>\<open>base\<close> is \<open>None\<close>
  (\<^verbatim>\<open>map?.base ?? {}\<close>).
\<close>

type_synonym os_entry = "os \<Rightarrow> string option"
type_synonym base_table = "(string \<times> os_entry) list"
type_synonym cmd_map = "base_table option"

text \<open>
  \<^verbatim>\<open>/^(\S+)(.*)$/s.exec(cmd)\<close>: no match for the empty string and for a string that
  starts with white space; otherwise the first group is the longest prefix without white
  space and the second is the rest.
\<close>

definition execHeadTail :: "string \<Rightarrow> (string \<times> string) option" where
  "execHeadTail cmd =
     (case cmd of
        [] \<Rightarrow> None
      | c # _ \<Rightarrow> if isSpace c then None
                 else Some (takeWhile (\<lambda>x. \<not> isSpace x) cmd, dropWhile (\<lambda>x. \<not> isSpace x) cmd))"

text \<open>
  The scan \<^verbatim>\<open>for (const key of Object.keys(base))\<close> stops at the first key whose lowered
  form is the lowered head; \<^verbatim>\<open>replacement = base[key]?.[os] ?? head\<close>.
\<close>

definition directMatch :: "base_table \<Rightarrow> string \<Rightarrow> (string \<times> os_entry) option" where
  "directMatch base lowerHead = find (\<lambda>(key, entry). lowerHead = toLowerCase key) base"

definition replacementOf :: "base_table \<Rightarrow> os \<Rightarrow> string \<Rightarrow> string option" where
  "replacementOf base os head =
     (case directMatch base (toLowerCase head) of
        None \<Rightarrow> None
      | Some (key, entry) \<Rightarrow> Some (case entry os of Some v \<Rightarrow> v | None \<Rightarrow> head))"

text \<open>\<^verbatim>\<open>base["rm -rf"]?.[os]\<close>.\<close>

definition mappedRmRf :: "base_table \<Rightarrow> os \<Rightarrow> string option" where
  "mappedRmRf base os = (case map_of base ''rm -rf'' of None \<Rightarrow> None | Some entry \<Rightarrow> entry os)"

text \<open>
  A value used as a condition counts as true when it is a non-empty string; \<^verbatim>\<open>undefined\<close>
  and the empty string count as false.
\<close>

definition truthy :: "string option \<Rightarrow> bool" where
  "truthy v = (case v of None \<Rightarrow> False | Some s \<Rightarrow> s \<noteq> [])"

text \<open>\<^verbatim>\<open>t.replace(/^\-rf\s*/, "")\<close>.\<close>

definition stripRf :: "string \<Rightarrow> string" where
  "stripRf t = (if startsWith t ''-rf'' then dropWhile isSpace (drop 3 t) else t)"

text \<open>
  \<^verbatim>\<open>translateSingle\<close>. \<open>plain\<close> is the value of the last line,
  \<^verbatim>\<open>`${replacement ?? head}${tail}`.trim()\<close>; the nesting of the conditions is the
  source's.
\<close>

definition translateSingle :: "string \<Rightarrow> os \<Rightarrow> cmd_map \<Rightarrow> string" where
  "translateSingle cmd os m =
     (let base = (case m of None \<Rightarrow> [] | Some b \<Rightarrow> b) in
      case execHeadTail cmd of
        None \<Rightarrow> cmd
      | Some (head, tail) \<Rightarrow>
          let lowerHead = toLowerCase head;
              replacement = replacementOf base os head;
              plain = trim ((case replacement of Some r \<Rightarrow> r | None \<Rightarrow> head) @ tail)
          in if \<not> truthy replacement then
               (if lowerHead = ''rm'' \<and> startsWith (trim tail) ''-rf'' then
                  (case mappedRmRf base os of
                     Some mapped \<Rightarrow>
                       if mapped \<noteq> [] then trim (mapped @ '' '' @ stripRf (trim tail))
                       else plain
                   | None \<Rightarrow> plain)
                else plain)
             else plain)"

definition translateCommandForOS :: "string \<Rightarrow> os \<Rightarrow> cmd_map \<Rightarrow> string" where
  "translateCommandForOS raw os m =
     joinSp (map (\<lambda>seg. if seg \<in> set separators then seg else translateSingle seg os m)
                 (splitPipelines raw))"

text \<open>
  The recursive-delete rule applies to a head and a tail when the lowered head is
  \<^verbatim>\<open>rm\<close>, the trimmed tail starts with \<^verbatim>\<open>-rf\<close> and the reserved key \<^verbatim>\<open>rm -rf\<close> has a
  value for the OS that counts as true.
\<close>

definition rmRule :: "base_table \<Rightarrow> os \<Rightarrow> string \<Rightarrow> string \<Rightarrow> bool" where
  "rmRule base os head tail =
     (toLowerCase head = ''rm'' \<and> startsWith (trim tail) ''-rf'' \<and> truthy (mappedRmRf base os))"

section \<open>Quoting of arguments\<close>

text \<open>The class \<^verbatim>\<open>[A-Za-z0-9_\-\.\/]\<close> of \<^verbatim>\<open>quoteArg\<close>.\<close>

definition isBareChar :: "char \<Rightarrow> bool" where
  "isBareChar c = (isUpperAZ c \<or> isLowerAZ c \<or> isDigit c \<or> c = CHR ''_'' \<or> c = CHR ''-''
     \<or> c = CHR ''.'' \<or> c = CHR ''/'')"

text \<open>\<^verbatim>\<open>/^[A-Za-z0-9_\-\.\/]+$/.test(a)\<close>: one or more characters, all of the class.\<close>

definition isBareToken :: "string \<Rightarrow> bool" where
  "isBareToken a = (a \<noteq> [] \<and> list_all isBareChar a)"

definition dquote :: char where
  "dquote = CHR 0x22"

definition backslash :: char where
  "backslash = CHR 0x5C"

text \<open>\<^verbatim>\<open>a.replace(/"/g, '\\"')\<close>: a backslash before every double quote.\<close>

fun escapeQuotes :: "string \<Rightarrow> string" where
  "escapeQuotes [] = []"
| "escapeQuotes (c # cs) =
     (if c = dquote then backslash # dquote # escapeQuotes cs else c # escapeQuotes cs)"

text \<open>
  \<^verbatim>\<open>quoteArg\<close>; \<open>None\<close> is the \<^verbatim>\<open>undefined\<close> or \<^verbatim>\<open>null\<close> of the first line, which a
  validated argument list never holds.
\<close>

definition quoteArg :: "string option \<Rightarrow> string" where
  "quoteArg a =
     (case a of
        None \<Rightarrow> []
      | Some s \<Rightarrow> if isBareToken s then s else [dquote] @ escapeQuotes s @ [dquote])"

section \<open>Objects of the runtime\<close>

text \<open>
  The command-key table is parsed JSON: an object whose own properties are the project
  names, each an object whose own properties are the keys, with strings as values
  (\<^verbatim>\<open>Record<string, Record<string, string>>\<close>). The server reads it with plain property
  lookups, \<^verbatim>\<open>data[name]\<close> and \<^verbatim>\<open>data[name]?.[key]\<close>, and a plain lookup that finds no
  own property goes on to the object's prototype: for a name such as \<^verbatim>\<open>constructor\<close> it
  returns a member of \<^verbatim>\<open>Object.prototype\<close>. Those members belong to the runtime, not to
  the server, so the model takes them as a parameter.

  A value read from an object is a string or not a string. Of a value that is not a
  string (a number, a function, a plain object) the server only asks whether it counts as
  true and whether its \<^verbatim>\<open>length\<close> is a number above zero; such a value has no method
  \<^verbatim>\<open>slice\<close> or \<^verbatim>\<open>toLowerCase\<close>. \<^verbatim>\<open>undefined\<close> and \<^verbatim>\<open>null\<close>, which the server never
  tells apart, are \<open>None\<close>.
\<close>

datatype error = TypeError | InvalidArgValue

datatype jsval = Str string | NonStr (countsAsTrue: bool) (positiveLength: bool)

text \<open>
  An inherited member: a function or an object of the runtime. \<open>hasOwn\<close> is
  \<^verbatim>\<open>Object.prototype.hasOwnProperty.call(m, key)\<close>, \<open>configurable\<close> says whether an own
  property may be deleted, \<open>getKey\<close> is the read \<^verbatim>\<open>m[key]\<close>, which throws for some
  accessor properties (\<^verbatim>\<open>caller\<close> of a built-in function), and \<open>lengthAboveZero\<close> says
  whether \<^verbatim>\<open>m.length\<close> is a number above zero.
\<close>

record member =
  hasOwn :: "string \<Rightarrow> bool"
  configurable :: "string \<Rightarrow> bool"
  getKey :: "string \<Rightarrow> error + jsval option"
  lengthAboveZero :: bool

text \<open>The runtime: the member a plain object inherits under a name, if any.\<close>

type_synonym runtime = "string \<Rightarrow> member option"

text \<open>A member read as a value: an object counts as true.\<close>

definition memberValue :: "member \<Rightarrow> jsval" where
  "memberValue m = NonStr True (lengthAboveZero m)"

section \<open>Configuration store\<close>

text \<open>
  Each of the two files holds a parsed document, or \<open>None\<close> when it cannot be read or
  parsed. The world also records what the server did: the paths written, in order, the
  command lines handed to the shell, and the properties it deleted from inherited
  members.
\<close>

type_synonym commands = "string \<rightharpoonup> string"
type_synonym cmd_table = "string \<rightharpoonup> commands"

datatype path = COMMAND_MAP_PATH | PROJECT_COMMANDS_PATH

record world =
  commandMapFile :: "cmd_map option"
  projectCommandsFile :: "cmd_table option"
  written :: "path list"
  spawned :: "string list"
  deletedInherited :: "(string \<times> string) list"

text \<open>
  \<^verbatim>\<open>loadJson\<close> at its two types: the document when the file can be read, otherwise the
  fallback, after writing it to the file.
\<close>

definition loadJsonCommandMap :: "cmd_map \<Rightarrow> world \<Rightarrow> cmd_map \<times> world" where
  "loadJsonCommandMap fallback w =
     (case commandMapFile w of
        Some data \<Rightarrow> (data, w)
      | None \<Rightarrow> (fallback, w\<lparr>commandMapFile := Some fallback,
                                written := written w @ [COMMAND_MAP_PATH]\<rparr>))"

definition loadJsonProjectCommands :: "cmd_table \<Rightarrow> world \<Rightarrow> cmd_table \<times> world" where
  "loadJsonProjectCommands fallback w =
     (case projectCommandsFile w of
        Some data \<Rightarrow> (data, w)
      | None \<Rightarrow> (fallback, w\<lparr>projectCommandsFile := Some fallback,
                                written := written w @ [PROJECT_COMMANDS_PATH]\<rparr>))"

definition saveJsonProjectCommands :: "cmd_table \<Rightarrow> world \<Rightarrow> world" where
  "saveJsonProjectCommands data w =
     w\<lparr>projectCommandsFile := Some data, written := written w @ [PROJECT_COMMANDS_PATH]\<rparr>"

section \<open>Command resolver\<close>

definition defaults :: cmd_table where
  "defaults = [''default'' \<mapsto> [''install'' \<mapsto> ''npm install'', ''run'' \<mapsto> ''npm start'']]"

text \<open>
  \<^verbatim>\<open>data[name]\<close> on the table: the project's own sub-mapping, otherwise the member the
  table inherits under the name, otherwise \<^verbatim>\<open>undefined\<close>.
\<close>

datatype slot = Own commands | Inherited member

definition lookupTable :: "runtime \<Rightarrow> cmd_table \<Rightarrow> string \<Rightarrow> slot option" where
  "lookupTable rt data name =
     (case data name of
        Some cmds \<Rightarrow> Some (Own cmds)
      | None \<Rightarrow> (case rt name of Some m \<Rightarrow> Some (Inherited m) | None \<Rightarrow> None))"

text \<open>
  \<^verbatim>\<open>x?.[key]\<close> for the \<open>x\<close> that \<^verbatim>\<open>data[name]\<close> gave. On a sub-mapping the read finds
  the own string, otherwise the member that the sub-mapping inherits under the key; on an
  inherited member it is that member's read.
\<close>

definition readKey :: "runtime \<Rightarrow> slot option \<Rightarrow> string \<Rightarrow> error + jsval option" where
  "readKey rt x key =
     (case x of
        None \<Rightarrow> Inr None
      | Some (Own cmds) \<Rightarrow>
          Inr (case cmds key of
                 Some s \<Rightarrow> Some (Str s)
               | None \<Rightarrow> (case rt key of Some m \<Rightarrow> Some (memberValue m) | None \<Rightarrow> None))
      | Some (Inherited m) \<Rightarrow> getKey m key)"

text \<open>\<^verbatim>\<open>data[name]?.[key]\<close>.\<close>

definition entryOf :: "runtime \<Rightarrow> cmd_table \<Rightarrow> string \<Rightarrow> string \<Rightarrow> error + jsval option" where
  "entryOf rt data name key = readKey rt (lookupTable rt data name) key"

text \<open>
  \<^verbatim>\<open>resolveProjectCommand\<close>, in the runtime \<open>rt\<close>. \<^verbatim>\<open>fromDefault\<close> is read first; a read
  that throws ends the call.
\<close>

definition resolveProjectCommand ::
  "runtime \<Rightarrow> string \<Rightarrow> string \<Rightarrow> world \<Rightarrow> (error + jsval option) \<times> world" where
  "resolveProjectCommand rt projectName key w =
     (let (fileData, w') = loadJsonProjectCommands defaults w in
      case entryOf rt fileData ''default'' key of
        Inl e \<Rightarrow> (Inl e, w')
      | Inr fromDefault \<Rightarrow>
          (case entryOf rt fileData projectName key of
             Inl e \<Rightarrow> (Inl e, w')
           | Inr fromProject \<Rightarrow>
               (Inr (case fromProject of Some v \<Rightarrow> Some v | None \<Rightarrow> fromDefault), w')))"

text \<open>
  What the claims call the entry that a sub-mapping defines: the own property of the own
  sub-mapping.
\<close>

definition ownEntry :: "cmd_table \<Rightarrow> string \<Rightarrow> string \<Rightarrow> string option" where
  "ownEntry data name key = (case data name of None \<Rightarrow> None | Some cmds \<Rightarrow> cmds key)"

text \<open>
  \<^verbatim>\<open>removeProjectCommand\<close>, in the runtime \<open>rt\<close>; the result is the field \<^verbatim>\<open>removed\<close>.
  The guard \<^verbatim>\<open>!data[projectName]\<close> lets an inherited member pass, since an object counts
  as true. The module is strict code, where \<^verbatim>\<open>delete\<close> of an own property that is not
  configurable throws; any other \<^verbatim>\<open>delete\<close> goes through, and the one of an own property
  of an inherited member changes the runtime, which the world records.
\<close>

definition removeProjectCommand ::
  "runtime \<Rightarrow> string \<Rightarrow> string \<Rightarrow> world \<Rightarrow> (error + bool) \<times> world" where
  "removeProjectCommand rt projectName key w =
     (let (data, w') = loadJsonProjectCommands [''default'' \<mapsto> Map.empty] w in
      case lookupTable rt data projectName of
        None \<Rightarrow> (Inr False, w')
      | Some (Own cmds) \<Rightarrow>
          let existed = (cmds key \<noteq> None);
              data' = data(projectName \<mapsto> cmds(key := None))
          in (Inr existed, saveJsonProjectCommands data' w')
      | Some (Inherited m) \<Rightarrow>
          let existed = hasOwn m key in
          if existed \<and> \<not> configurable m key then (Inl TypeError, w')
          else
            let w'' = (if existed
                       then w'\<lparr>deletedInherited := deletedInherited w' @ [(projectName, key)]\<rparr>
                       else w')
            in (Inr existed, saveJsonProjectCommands data w''))"

section \<open>Suggestion engine\<close>

text \<open>
  The regular expressions of \<^verbatim>\<open>buildSuggestion\<close> are a literal between two \<^verbatim>\<open>\b\<close>.
  \<^verbatim>\<open>\b\<close> holds between two neighbouring positions when exactly one of them holds a word
  character; the start and the end of the string count as not a word character. The
  matcher is at a position of the subject: \<open>prev\<close> is the character before it, if any,
  and the string is the subject from the position on.
\<close>

definition isWordAt :: "char option \<Rightarrow> bool" where
  "isWordAt c = (case c of None \<Rightarrow> False | Some x \<Rightarrow> isWord x)"

definition wordBoundary :: "char option \<Rightarrow> char option \<Rightarrow> bool" where
  "wordBoundary l r = (isWordAt l \<noteq> isWordAt r)"

definition charAt :: "string \<Rightarrow> nat \<Rightarrow> char option" where
  "charAt s i = (if i < length s then Some (s ! i) else None)"

definition matchesAt :: "string \<Rightarrow> char option \<Rightarrow> string \<Rightarrow> bool" where
  "matchesAt pat prev s =
     (pat \<noteq> [] \<and> startsWith s pat
      \<and> wordBoundary prev (charAt s 0)
      \<and> wordBoundary (charAt s (length pat - 1)) (charAt s (length pat)))"

text \<open>\<^verbatim>\<open>/\bpat\b/.test(s)\<close>: some position matches.\<close>

fun testFrom :: "string \<Rightarrow> char option \<Rightarrow> string \<Rightarrow> bool" where
  "testFrom pat prev [] = False"
| "testFrom pat prev (c # cs) = (matchesAt pat prev (c # cs) \<or> testFrom pat (Some c) cs)"

definition testWord :: "string \<Rightarrow> string \<Rightarrow> bool" where
  "testWord pat s = testFrom pat None s"

text \<open>
  \<^verbatim>\<open>s.replace(/\bpat\b/g, rep)\<close>: the matches are looked for from left to right, each one
  from the end of the one before, and every match is replaced.
\<close>

function replaceFrom :: "string \<Rightarrow> string \<Rightarrow> char option \<Rightarrow> string \<Rightarrow> string" where
  "replaceFrom pat rep prev [] = []"
| "replaceFrom pat rep prev (c # cs) =
     (if matchesAt pat prev (c # cs)
      then rep @ replaceFrom pat rep (charAt (c # cs) (length pat - 1)) (drop (length pat - 1) cs)
      else c # replaceFrom pat rep (Some c) cs)"
  by pat_completeness auto
termination
  by (relation "measure (\<lambda>(pat, rep, prev, s). length s)") auto

definition replaceWord :: "string \<Rightarrow> string \<Rightarrow> string \<Rightarrow> string" where
  "replaceWord pat rep s = replaceFrom pat rep None s"

record flavor =
  bun :: bool
  yarn :: bool
  pnpm :: bool
  poetry :: bool
  pipenv :: bool

text \<open>
  The second block of \<^verbatim>\<open>buildSuggestion\<close>, from \<^verbatim>\<open>if (/\bpip\b/.test(lc))\<close> to the final
  \<^verbatim>\<open>return undefined\<close>. It is reached when the first block is skipped and also when the
  first block is entered and none of its three flavours holds.
\<close>

definition pipSuggestion :: "string \<Rightarrow> flavor \<Rightarrow> string option" where
  "pipSuggestion lc fl =
     (if testWord ''pip'' lc then
        (if poetry fl then Some ''poetry install''
         else if pipenv fl then Some ''pipenv install''
         else None)
      else None)"

definition buildSuggestion :: "string \<Rightarrow> string \<Rightarrow> flavor \<Rightarrow> string option \<Rightarrow> string option" where
  "buildSuggestion cmd stderr fl key =
     (let lc = toLowerCase cmd in
      if includesStr lc ''npm '' then
        (if bun fl then
           (if key = Some ''install'' then Some ''bun install''
            else if key = Some ''run'' then Some ''bun run dev''
            else Some (replaceWord ''npm'' ''bun'' cmd))
         else if yarn fl then
           (if key = Some ''install'' then Some ''yarn install''
            else Some (replaceWord ''npm run'' ''yarn'' cmd))
         else if pnpm fl then
           (if key = Some ''install'' then Some ''pnpm install''
            else Some (replaceWord ''npm run'' ''pnpm run'' cmd))
         else pipSuggestion lc fl)
      else pipSuggestion lc fl)"

text \<open>
  The policy in the words of the specification. A whole word is a maximal run of word
  characters; \<open>wordRuns\<close> cuts a string into its whole words and, one by one, the
  characters between them.
\<close>

function wordRuns :: "string \<Rightarrow> string list" where
  "wordRuns [] = []"
| "wordRuns (c # cs) =
     (if isWord c then (c # takeWhile isWord cs) # wordRuns (dropWhile isWord cs)
      else [c] # wordRuns cs)"
  by pat_completeness auto
termination
  by (relation "measure length") (auto simp: le_imp_less_Suc length_dropWhile_le)

definition hasWholeWord :: "string \<Rightarrow> string \<Rightarrow> bool" where
  "hasWholeWord w s = (w \<in> set (wordRuns s))"

definition replaceWholeWord :: "string \<Rightarrow> string \<Rightarrow> string \<Rightarrow> string" where
  "replaceWholeWord w rep s = concat (map (\<lambda>run. if run = w then rep else run) (wordRuns s))"

text \<open>
  ``The command mentions an npm invocation'': the lowered command contains \<^verbatim>\<open>npm\<close>
  and a space after it.
\<close>

definition mentionsNpm :: "string \<Rightarrow> bool" where
  "mentionsNpm cmd = includesStr (toLowerCase cmd) ''npm ''"

text \<open>
  An ordered list of rules, each a condition and the suggestion it makes; the first rule
  whose condition holds wins.
\<close>

fun firstMatch :: "(bool \<times> 'a) list \<Rightarrow> 'a option" where
  "firstMatch [] = None"
| "firstMatch ((cond, result) # rules) = (if cond then Some result else firstMatch rules)"

definition npmRules :: "string \<Rightarrow> flavor \<Rightarrow> string option \<Rightarrow> (bool \<times> string) list" where
  "npmRules cmd fl key =
     [(bun fl \<and> key = Some ''install'', ''bun install''),
      (bun fl \<and> key = Some ''run'', ''bun run dev''),
      (bun fl, replaceWholeWord ''npm'' ''bun'' cmd),
      (yarn fl \<and> key = Some ''install'', ''yarn install''),
      (yarn fl, replaceWord ''npm run'' ''yarn'' cmd),
      (pnpm fl \<and> key = Some ''install'', ''pnpm install''),
      (pnpm fl, replaceWord ''npm run'' ''pnpm run'' cmd)]"

definition pipRules :: "flavor \<Rightarrow> (bool \<times> string) list" where
  "pipRules fl = [(poetry fl, ''poetry install''), (pipenv fl, ''pipenv install'')]"

text \<open>
  The policy as the specification states it: the rules of npm when the command mentions
  an npm invocation; otherwise those of pip when the lowered command has \<^verbatim>\<open>pip\<close> as a
  whole word; otherwise no suggestion.
\<close>

definition claimedPolicy :: "string \<Rightarrow> flavor \<Rightarrow> string option \<Rightarrow> string option" where
  "claimedPolicy cmd fl key =
     (if mentionsNpm cmd then firstMatch (npmRules cmd fl key)
      else if hasWholeWord ''pip'' (toLowerCase cmd) then firstMatch (pipRules fl)
      else None)"

text \<open>
  The same policy with one change: the rules of pip are also tried when the command
  mentions an npm invocation and no rule of npm made a suggestion.
\<close>

definition fallThroughPolicy :: "string \<Rightarrow> flavor \<Rightarrow> string option \<Rightarrow> string option" where
  "fallThroughPolicy cmd fl key =
     (case (if mentionsNpm cmd then firstMatch (npmRules cmd fl key) else None) of
        Some s \<Rightarrow> Some s
      | None \<Rightarrow>
          if hasWholeWord ''pip'' (toLowerCase cmd) then firstMatch (pipRules fl) else None)"

section \<open>Execution orchestrator\<close>

record run_result =
  stdout :: string
  stderr :: string
  exitCode :: int

text \<open>
  What the handler of \<^verbatim>\<open>executeCommand\<close> takes from its surroundings: the host OS
  (\<^verbatim>\<open>getOS()\<close>), the flavour found in the working directory
  (\<^verbatim>\<open>detectProjectFlavor()\<close>), the members that plain objects inherit, and the shell
  (\<^verbatim>\<open>runShell\<close>), a black box from a non-empty command line to the result of the run.
\<close>

record env =
  getOS :: os
  detectProjectFlavor :: flavor
  runShell :: "string \<Rightarrow> run_result"
  objectPrototype :: runtime

text \<open>
  The three objects the handler serialises. \<^verbatim>\<open>suggestion\<close> is optional in the second;
  the first is built with \<^verbatim>\<open>suggestion: undefined\<close>, a field the serialisation leaves
  out.
\<close>

datatype tool_result =
    NotFound (errorCode: string) (message: string)
  | Failed (errorCode: string) (message: string) (suggestion: "string option")
      (resolvedCommand: string) (run: run_result)
  | Succeeded (run: run_result) (resolvedCommand: string)

text \<open>The decimal form of an integer, as a template literal prints the exit code.\<close>

definition digitChar :: "nat \<Rightarrow> char" where
  "digitChar d = char_of (48 + d)"

function showNat :: "nat \<Rightarrow> string" where
  "showNat n = (if n < 10 then [digitChar n] else showNat (n div 10) @ [digitChar (n mod 10)])"
  by pat_completeness auto
termination
  by (relation "measure id") auto

declare showNat.simps [simp del]

definition showInt :: "int \<Rightarrow> string" where
  "showInt i = (if i < 0 then CHR ''-'' # showNat (nat (- i)) else showNat (nat i))"

text \<open>
  \<^verbatim>\<open>[translated, ...(args || []).map(quoteArg)].filter(Boolean).join(" ")\<close>.
\<close>

definition fullCommand :: "string \<Rightarrow> string list option \<Rightarrow> string" where
  "fullCommand translated args =
     joinSp (filter (\<lambda>s. s \<noteq> [])
       (translated # map (\<lambda>a. quoteArg (Some a)) (case args of None \<Rightarrow> [] | Some as \<Rightarrow> as)))"

definition notFound :: "string \<Rightarrow> tool_result" where
  "notFound commandKey =
     NotFound ''COMMAND_NOT_FOUND''
       (''No command mapping found for key '' @ [dquote] @ commandKey @ [dquote])"

text \<open>\<^verbatim>\<open>!projectCmd\<close> is false for a value that counts as true.\<close>

definition truthyValue :: "jsval \<Rightarrow> bool" where
  "truthyValue v = (case v of Str s \<Rightarrow> s \<noteq> [] | NonStr t l \<Rightarrow> t)"

text \<open>
  \<^verbatim>\<open>translateCommandForOS\<close> on the resolved value. The splitter's loop runs while
  \<^verbatim>\<open>i < cmd.length\<close>: for a value that is not a string it is not entered when the
  length is not a number above zero, and the result is the join of no segments, the
  empty string; otherwise the first step calls \<^verbatim>\<open>cmd.slice\<close>, which such a value does
  not have, and throws.
\<close>

definition translateValue :: "jsval \<Rightarrow> os \<Rightarrow> cmd_map \<Rightarrow> error + string" where
  "translateValue v os m =
     (case v of
        Str s \<Rightarrow> Inr (translateCommandForOS s os m)
      | NonStr t l \<Rightarrow> if l then Inl TypeError else Inr [])"

text \<open>
  \<^verbatim>\<open>buildSuggestion\<close> on the resolved value: its first line calls \<^verbatim>\<open>cmd.toLowerCase\<close>,
  which a value that is not a string does not have.
\<close>

definition suggestionFor ::
  "jsval \<Rightarrow> string \<Rightarrow> flavor \<Rightarrow> string option \<Rightarrow> error + string option" where
  "suggestionFor v err fl key =
     (case v of
        Str s \<Rightarrow> Inr (buildSuggestion s err fl key)
      | NonStr t l \<Rightarrow> Inl TypeError)"

text \<open>
  The handler of \<^verbatim>\<open>executeCommand\<close>. It returns a result object, or it throws: when a
  read of the resolver throws, when the resolved value is not a string and one of its two
  uses throws, and when the command line is empty, which \<^verbatim>\<open>spawn\<close> refuses before it
  starts anything.
\<close>

definition executeCommand ::
  "env \<Rightarrow> string \<Rightarrow> string \<Rightarrow> string list option \<Rightarrow> world
     \<Rightarrow> (error + tool_result) \<times> world" where
  "executeCommand e projectName commandKey args w =
     (let os = getOS e;
          (cmdMap, w1) = loadJsonCommandMap (Some []) w;
          (resolved, w2) = resolveProjectCommand (objectPrototype e) projectName commandKey w1;
          fl = detectProjectFlavor e
      in case resolved of
           Inl err \<Rightarrow> (Inl err, w2)
         | Inr None \<Rightarrow> (Inr (notFound commandKey), w2)
         | Inr (Some projectCmd) \<Rightarrow>
             if \<not> truthyValue projectCmd then (Inr (notFound commandKey), w2)
             else
               (case translateValue projectCmd os cmdMap of
                  Inl err \<Rightarrow> (Inl err, w2)
                | Inr translated \<Rightarrow>
                    let full = fullCommand translated args in
                    if full = [] then (Inl InvalidArgValue, w2)
                    else
                      let r = runShell e full;
                          w3 = w2\<lparr>spawned := spawned w2 @ [full]\<rparr>
                      in if exitCode r \<noteq> 0 then
                           (case suggestionFor projectCmd (stderr r) fl (Some commandKey) of
                              Inl err \<Rightarrow> (Inl err, w3)
                            | Inr sug \<Rightarrow>
                                (Inr (Failed ''COMMAND_FAILED''
                                       (''Command failed with exit code '' @ showInt (exitCode r))
                                       sug full r), w3))
                         else (Inr (Succeeded r full), w3)))"

section \<open>Example data\<close>

text \<open>The table of the resolver example, and a world whose two files exist.\<close>

definition exampleTable :: cmd_table where
  "exampleTable = [''default'' \<mapsto> [''install'' \<mapsto> ''npm install''],
                   ''p'' \<mapsto> [''install'' \<mapsto> ''bun install'']]"

definition worldWith :: "cmd_map \<Rightarrow> cmd_table \<Rightarrow> world" where
  "worldWith m t = \<lparr>commandMapFile = Some m, projectCommandsFile = Some t,
                      written = [], spawned = [], deletedInherited = []\<rparr>"

definition storedWorld :: "cmd_table \<Rightarrow> world" where
  "storedWorld t = worldWith (Some []) t"

text \<open>
  The part of the runtime the examples touch: under \<^verbatim>\<open>constructor\<close> a plain object
  inherits the function \<^verbatim>\<open>Object\<close>, whose own properties \<^verbatim>\<open>name\<close>, the string
  \<^verbatim>\<open>Object\<close>, and \<^verbatim>\<open>length\<close>, the number 1, can be deleted, and whose own property
  \<^verbatim>\<open>prototype\<close>, an object, cannot. No example reads another property of the function
  or another inherited member.
\<close>

definition objectFunction :: member where
  "objectFunction =
     \<lparr>hasOwn = (\<lambda>key. key = ''name'' \<or> key = ''length'' \<or> key = ''prototype''),
      configurable = (\<lambda>key. key \<noteq> ''prototype''),
      getKey = (\<lambda>key. if key = ''name'' then Inr (Some (Str ''Object''))
                      else if key = ''length'' \<or> key = ''prototype''
                      then Inr (Some (NonStr True False))
                      else Inr None),
      lengthAboveZero = True\<rparr>"

definition exampleRuntime :: runtime where
  "exampleRuntime name = (if name = ''constructor'' then Some objectFunction else None)"

definition noFlavor :: flavor where
  "noFlavor = \<lparr>bun = False, yarn = False, pnpm = False, poetry = False, pipenv = False\<rparr>"

definition yarnOnly :: flavor where
  "yarnOnly = noFlavor\<lparr>yarn := True\<rparr>"

text \<open>A shell whose every run ends with the given exit code and prints nothing.\<close>

definition exitWith :: "int \<Rightarrow> string \<Rightarrow> run_result" where
  "exitWith n cmd = \<lparr>stdout = [], stderr = [], exitCode = n\<rparr>"

definition exampleEnv :: "os \<Rightarrow> flavor \<Rightarrow> int \<Rightarrow> env" where
  "exampleEnv os fl n = \<lparr>getOS = os, detectProjectFlavor = fl, runShell = exitWith n,
                          objectPrototype = exampleRuntime\<rparr>"

text \<open>A table with an empty command: that of the default, under the key \<^verbatim>\<open>name\<close>.\<close>

definition nameTable :: cmd_table where
  "nameTable = [''default'' \<mapsto> [''name'' \<mapsto> []]]"


definition poetryOnly :: flavor where
  "poetryOnly = noFlavor\<lparr>poetry := True\<rparr>"



text \<open>
  Translation tables: the recursive-delete key alone, with the replacement of the
  specification and with an empty one; the key \<^verbatim>\<open>rm\<close>, with an empty replacement and
  with none, before the recursive-delete key; and the key \<^verbatim>\<open>ls\<close> without an entry for
  linux.
\<close>

definition winEntry :: "string \<Rightarrow> os_entry" where
  "winEntry v = (\<lambda>os. None)(windows \<mapsto> v)"

definition rmTable :: base_table where
  "rmTable = [(''rm -rf'', winEntry ''rmdir /s /q'')]"

definition rmEmptyTable :: base_table where
  "rmEmptyTable = [(''rm -rf'', winEntry [])]"

definition rmShadowTable :: base_table where
  "rmShadowTable = [(''rm'', winEntry []), (''rm -rf'', winEntry ''rmdir /s /q'')]"

definition rmAbsentTable :: base_table where
  "rmAbsentTable = [(''rm'', \<lambda>os. None), (''rm -rf'', winEntry ''rmdir /s /q'')]"

definition lsEntry :: os_entry where
  "lsEntry = (\<lambda>os. None)(windows \<mapsto> ''dir'', darwin \<mapsto> ''ls'')"

definition lsTable :: base_table where
  "lsTable = [(''ls'', lsEntry)]"






text \<open>
  A command that installs with npm and with pip, and flavours for the suggestion policy.
\<close>

definition mixedCommand :: string where
  "mixedCommand = ''npm install && pip install -r requirements.txt''"

definition bunOnly :: flavor where
  "bunOnly = noFlavor\<lparr>bun := True\<rparr>"

section \<open>Facts about strings\<close>

lemma startsWith_Cons:
  "startsWith (c # cs) (p # ps) = (c = p \<and> startsWith cs ps)"
  by (simp add: startsWith_def)

lemma startsWith_Nil [simp]: "startsWith s [] = True"
  by (simp add: startsWith_def)

lemma startsWith_iff: "startsWith s pat \<longleftrightarrow> (\<exists>ys. s = pat @ ys)"
  unfolding startsWith_def
  by (metis append_eq_conv_conj append_take_drop_id)

lemma includesStr_iff: "includesStr s pat \<longleftrightarrow> (\<exists>xs ys. s = xs @ pat @ ys)"
proof (induction s)
  case Nil
  then show ?case by auto
next
  case (Cons c cs)
  show ?case
  proof
    assume "includesStr (c # cs) pat"
    then consider "startsWith (c # cs) pat" | "includesStr cs pat" by auto
    then show "\<exists>xs ys. c # cs = xs @ pat @ ys"
    proof cases
      case 1
      then obtain ys where "c # cs = pat @ ys" by (auto simp: startsWith_iff)
      then have "c # cs = [] @ pat @ ys" by simp
      then show ?thesis by blast
    next
      case 2
      then obtain xs ys where "cs = xs @ pat @ ys" using Cons.IH by blast
      then have "c # cs = (c # xs) @ pat @ ys" by simp
      then show ?thesis by blast
    qed
  next
    assume "\<exists>xs ys. c # cs = xs @ pat @ ys"
    then obtain xs ys where e: "c # cs = xs @ pat @ ys" by blast
    show "includesStr (c # cs) pat"
    proof (cases xs)
      case Nil
      then have "startsWith (c # cs) pat" using e by (auto simp: startsWith_iff)
      then show ?thesis by simp
    next
      case (Cons x xs')
      then have "cs = xs' @ pat @ ys" using e by simp
      then have "includesStr cs pat" using Cons.IH by blast
      then show ?thesis by simp
    qed
  qed
qed

lemma trim_sub: "\<exists>a b. s = a @ trim s @ b"
proof -
  let ?d = "dropWhile isSpace s"
  have 1: "s = takeWhile isSpace s @ ?d" by simp
  have "rev (takeWhile isSpace (rev ?d) @ dropWhile isSpace (rev ?d)) = rev (rev ?d)"
    by (simp only: takeWhile_dropWhile_id)
  then have "?d = trim s @ rev (takeWhile isSpace (rev ?d))"
    by (simp only: rev_append rev_rev_ident trim_def)
  with 1 have "s = takeWhile isSpace s @ trim s @ rev (takeWhile isSpace (rev ?d))"
    by simp
  then show ?thesis by blast
qed

lemma includesStr_trim: "includesStr (trim s) pat \<Longrightarrow> includesStr s pat"
proof -
  assume "includesStr (trim s) pat"
  then obtain xs ys where t: "trim s = xs @ pat @ ys" by (auto simp: includesStr_iff)
  obtain a b where "s = a @ trim s @ b" using trim_sub by blast
  then have "s = (a @ xs) @ pat @ (ys @ b)" using t by simp
  then show ?thesis unfolding includesStr_iff by blast
qed

lemma dropWhile_all: "(\<forall>x \<in> set (dropWhile P s). P x) \<longleftrightarrow> (\<forall>x \<in> set s. P x)"
proof
  assume a: "\<forall>x \<in> set (dropWhile P s). P x"
  have "dropWhile P s = []"
  proof (rule ccontr)
    assume n: "dropWhile P s \<noteq> []"
    then have "\<not> P (hd (dropWhile P s))" by (rule hd_dropWhile)
    moreover have "hd (dropWhile P s) \<in> set (dropWhile P s)" using n by simp
    ultimately show False using a by blast
  qed
  then show "\<forall>x \<in> set s. P x" by (simp add: dropWhile_eq_Nil_conv)
next
  assume "\<forall>x \<in> set s. P x"
  then show "\<forall>x \<in> set (dropWhile P s). P x" using set_dropWhileD by fastforce
qed

lemma trim_Nil_iff: "trim s = [] \<longleftrightarrow> (\<forall>c \<in> set s. isSpace c)"
  by (simp add: trim_def dropWhile_eq_Nil_conv dropWhile_all)

lemma trim_id:
  assumes "s \<noteq> []" and "\<not> isSpace (hd s)" and "\<not> isSpace (last s)"
  shows "trim s = s"
proof -
  have nodrop: "dropWhile isSpace xs = xs" if "xs \<noteq> []" "\<not> isSpace (hd xs)" for xs
    using that by (cases xs) simp_all
  have 1: "dropWhile isSpace s = s" using assms(1,2) by (rule nodrop)
  have "rev s \<noteq> []" and "hd (rev s) = last s" using assms(1) by (simp_all add: hd_rev)
  then have 2: "dropWhile isSpace (rev s) = rev s" using assms(3) nodrop by metis
  show ?thesis by (simp add: trim_def 1 2)
qed

lemma last_dropWhile: "dropWhile P xs \<noteq> [] \<Longrightarrow> last (dropWhile P xs) = last xs"
proof -
  assume n: "dropWhile P xs \<noteq> []"
  have "last xs = last (takeWhile P xs @ dropWhile P xs)" by simp
  also have "\<dots> = last (dropWhile P xs)" using n by (simp only: last_append if_False)
  finally show ?thesis by simp
qed

lemma trim_ends:
  assumes "trim s \<noteq> []"
  shows "\<not> isSpace (hd (trim s))" and "\<not> isSpace (last (trim s))"
proof -
  let ?d = "dropWhile isSpace s"
  let ?e = "dropWhile isSpace (rev ?d)"
  have e: "?e \<noteq> []" using assms by (simp add: trim_def)
  have d: "?d \<noteq> []"
  proof
    assume a: "?d = []"
    have "?e = []" unfolding a by simp
    then show False using e by blast
  qed
  have "last (trim s) = hd ?e" using e by (simp add: trim_def last_rev)
  then show "\<not> isSpace (last (trim s))" using hd_dropWhile [OF e] by simp
  have "hd (trim s) = last ?e" using e by (simp add: trim_def hd_rev)
  also have "\<dots> = last (rev ?d)" using e by (rule last_dropWhile)
  also have "\<dots> = hd ?d" using d by (simp add: last_rev)
  finally show "\<not> isSpace (hd (trim s))" using hd_dropWhile [OF d] by simp
qed

lemma trim_trim: "trim (trim s) = trim s"
proof (cases "trim s = []")
  case True
  have "trim [] = []" by (simp add: trim_def)
  then show ?thesis using True by simp
next
  case False
  then show ?thesis using trim_ends [OF False] by (intro trim_id)
qed

section \<open>The segment splitter\<close>

lemma hasSeparator_Cons:
  "\<not> hasSeparator (c # cs) \<Longrightarrow>
     c \<noteq> CHR ''|'' \<and> c \<noteq> CHR '';'' \<and> \<not> hasSeparator cs \<and> \<not> startsWith (c # cs) ''&&''"
  by (auto simp: hasSeparator_def startsWith_Cons)

lemma splitLoop_plain:
  "take 2 (ch # rest) \<noteq> ''&&'' \<Longrightarrow> take 2 (ch # rest) \<noteq> ''||'' \<Longrightarrow> ch \<noteq> CHR ''|'' \<Longrightarrow>
   ch \<noteq> CHR '';'' \<Longrightarrow> splitLoop (ch # rest) buf parts = splitLoop rest (buf @ [ch]) parts"
  by (auto simp: Let_def)

lemma splitLoop_two:
  "take 2 (ch # rest) = ''&&'' \<or> take 2 (ch # rest) = ''||'' \<Longrightarrow>
   splitLoop (ch # rest) buf parts
     = splitLoop (tl rest) [] (flush buf parts @ [take 2 (ch # rest)])"
  by (auto simp: Let_def)

lemma splitLoop_one:
  "take 2 (ch # rest) \<noteq> ''&&'' \<Longrightarrow> take 2 (ch # rest) \<noteq> ''||'' \<Longrightarrow>
   ch = CHR ''|'' \<or> ch = CHR '';'' \<Longrightarrow>
   splitLoop (ch # rest) buf parts = splitLoop rest [] (flush buf parts @ [[ch]])"
  by (auto simp: Let_def)

lemma splitLoop_no_separator:
  "\<not> hasSeparator xs \<Longrightarrow> xs = [] \<or> last xs \<noteq> CHR ''&'' \<or> \<not> startsWith rest ''&'' \<Longrightarrow>
     splitLoop (xs @ rest) buf parts = splitLoop rest (buf @ xs) parts"
proof (induction xs arbitrary: buf)
  case Nil
  then show ?case by simp
next
  case (Cons c cs)
  from hasSeparator_Cons [OF Cons.prems(1)]
  have c: "c \<noteq> CHR ''|''" "c \<noteq> CHR '';''" and cs: "\<not> hasSeparator cs"
    and amp: "\<not> startsWith (c # cs) ''&&''" by simp_all
  have nxt: "cs = [] \<or> last cs \<noteq> CHR ''&'' \<or> \<not> startsWith rest ''&''"
    using Cons.prems(2) by (auto split: if_splits)
  have two1: "take 2 (c # cs @ rest) \<noteq> ''||''" using c by (cases "cs @ rest") auto
  have two2: "take 2 (c # cs @ rest) \<noteq> ''&&''"
  proof (cases cs)
    case Nil
    then show ?thesis using Cons.prems(2) by (cases rest) (auto simp: startsWith_Cons)
  next
    case (Cons d ds)
    then show ?thesis using amp by (auto simp: startsWith_Cons)
  qed
  have "splitLoop ((c # cs) @ rest) buf parts = splitLoop (cs @ rest) (buf @ [c]) parts"
    using splitLoop_plain [OF two2 two1 c] by simp
  also have "\<dots> = splitLoop rest ((buf @ [c]) @ cs) parts"
    by (rule Cons.IH [OF cs nxt])
  finally show ?case by simp
qed

lemma flush_parts: "flush buf parts = parts @ flush buf []"
  by (simp add: flush_def)

lemma splitLoop_parts: "splitLoop s buf parts = parts @ splitLoop s buf []"
proof (induction "length s" arbitrary: s buf parts rule: less_induct)
  case less
  show ?case
  proof (cases s)
    case Nil
    then show ?thesis using flush_parts [of buf parts] by simp
  next
    case (Cons ch rest)
    have l1: "length rest < length s" and l2: "length (tl rest) < length s"
      using Cons by simp_all
    consider (two) "take 2 (ch # rest) = ''&&'' \<or> take 2 (ch # rest) = ''||''"
      | (one) "take 2 (ch # rest) \<noteq> ''&&''" "take 2 (ch # rest) \<noteq> ''||''"
              "ch = CHR ''|'' \<or> ch = CHR '';''"
      | (plain) "take 2 (ch # rest) \<noteq> ''&&''" "take 2 (ch # rest) \<noteq> ''||''"
              "ch \<noteq> CHR ''|''" "ch \<noteq> CHR '';''"
      by blast
    then show ?thesis
    proof cases
      case two
      have "splitLoop s buf parts
          = (flush buf parts @ [take 2 (ch # rest)]) @ splitLoop (tl rest) [] []"
        unfolding Cons splitLoop_two [OF two] using less [OF l2] .
      moreover have "splitLoop s buf []
          = (flush buf [] @ [take 2 (ch # rest)]) @ splitLoop (tl rest) [] []"
        unfolding Cons splitLoop_two [OF two] using less [OF l2] .
      ultimately show ?thesis using flush_parts [of buf parts] by simp
    next
      case one
      have "splitLoop s buf parts = (flush buf parts @ [[ch]]) @ splitLoop rest [] []"
        unfolding Cons splitLoop_one [OF one] using less [OF l1] .
      moreover have "splitLoop s buf [] = (flush buf [] @ [[ch]]) @ splitLoop rest [] []"
        unfolding Cons splitLoop_one [OF one] using less [OF l1] .
      ultimately show ?thesis using flush_parts [of buf parts] by simp
    next
      case plain
      have "splitLoop s buf parts = parts @ splitLoop rest (buf @ [ch]) []"
        unfolding Cons splitLoop_plain [OF plain] using less [OF l1] .
      moreover have "splitLoop s buf [] = splitLoop rest (buf @ [ch]) []"
        unfolding Cons splitLoop_plain [OF plain] ..
      ultimately show ?thesis by simp
    qed
  qed
qed

lemma classify_trim:
  assumes "\<not> hasSeparator s"
  shows "classify (trim s) = Fragment (trim s)"
proof -
  have "\<not> includesStr (trim s) pat" if "pat \<in> set separators" for pat
  proof -
    have "\<not> includesStr s pat" using assms that by (auto simp: hasSeparator_def separators_def)
    then show ?thesis using includesStr_trim by blast
  qed
  moreover have "includesStr x x" for x
    unfolding includesStr_iff by (metis append_Nil append_Nil2)
  ultimately have "trim s \<notin> set separators" by metis
  then show ?thesis by (simp add: classify_def)
qed

text \<open>
  Claim C3. For every input without any of the separators \<^verbatim>\<open>&&\<close>, \<^verbatim>\<open>||\<close>, \<^verbatim>\<open>|\<close>,
  \<^verbatim>\<open>;\<close> the splitter returns the one fragment that is the trimmed input, or nothing
  when the trimmed input is empty, as it is for an empty or white-space-only input.
  Every separator that follows a stretch \<open>s\<close> without separators becomes a token of its
  own, after the fragment of \<open>s\<close>, if any, and the rest of the input is split on its own:
  \<^verbatim>\<open>;\<close> always; \<^verbatim>\<open>|\<close> when no second \<^verbatim>\<open>|\<close> follows it; \<^verbatim>\<open>||\<close>, which is one token
  and not two \<^verbatim>\<open>|\<close>, since a two-character separator is matched before a
  single-character one; and \<^verbatim>\<open>&&\<close> (when \<open>s\<close> does not end in \<^verbatim>\<open>&\<close>, where the
  two-character match would start one position earlier). Adjacent separators are kept:
  two \<^verbatim>\<open>;\<close> between two stretches without separators give the fragment of the first,
  two separators \<^verbatim>\<open>;\<close> and the fragment of the second, with nothing in between, as
  \<^verbatim>\<open>"a;;b"\<close> gives the fragment \<^verbatim>\<open>a\<close>, \<^verbatim>\<open>;\<close>, \<^verbatim>\<open>;\<close> and the fragment \<^verbatim>\<open>b\<close>.
\<close>

theorem splitPipelines_fragments:
  "(\<not> hasSeparator s \<longrightarrow>
      splitPipelines s = (if trim s = [] then [] else [trim s])
      \<and> map classify (splitPipelines s) = (if trim s = [] then [] else [Fragment (trim s)]))
   \<and> ((\<forall>c \<in> set s. isSpace c) \<longrightarrow> splitPipelines s = [])
   \<and> map classify (splitPipelines ''a;;b'')
       = [Fragment ''a'', Separator '';'', Separator '';'', Fragment ''b'']
   \<and> (\<not> hasSeparator s \<longrightarrow>
        splitPipelines (s @ ''||'' @ rest) = flush s [] @ [''||''] @ splitPipelines rest)
   \<and> (\<not> hasSeparator s \<and> (s = [] \<or> last s \<noteq> CHR ''&'') \<longrightarrow>
        splitPipelines (s @ ''&&'' @ rest) = flush s [] @ [''&&''] @ splitPipelines rest)
   \<and> (\<not> hasSeparator s \<longrightarrow>
        splitPipelines (s @ '';'' @ rest) = flush s [] @ ['';''] @ splitPipelines rest)
   \<and> (\<not> hasSeparator s \<and> \<not> startsWith rest ''|'' \<longrightarrow>
        splitPipelines (s @ ''|'' @ rest) = flush s [] @ [''|''] @ splitPipelines rest)
   \<and> (\<not> hasSeparator s \<and> \<not> hasSeparator rest \<longrightarrow>
        map classify (splitPipelines (s @ '';;'' @ rest))
          = (if trim s = [] then [] else [Fragment (trim s)])
            @ [Separator '';'', Separator '';'']
            @ (if trim rest = [] then [] else [Fragment (trim rest)]))"
proof -
  have plain: "splitPipelines s = (if trim s = [] then [] else [trim s])" if "\<not> hasSeparator s"
    for s
  proof -
    have "\<not> startsWith [] ''&''" by (simp add: startsWith_def)
    then have "splitLoop (s @ []) [] [] = splitLoop [] ([] @ s) []"
      using splitLoop_no_separator [OF that] by blast
    then show ?thesis by (simp add: splitPipelines_def flush_def)
  qed
  have typed: "map classify (splitPipelines s) = (if trim s = [] then [] else [Fragment (trim s)])"
    if "\<not> hasSeparator s" for s
    using plain [OF that] classify_trim [OF that] by simp
  have blank: "splitPipelines s = []" if b: "\<forall>c \<in> set s. isSpace c"
  proof -
    have "\<not> hasSeparator s"
    proof
      assume "hasSeparator s"
      then obtain pat where p: "pat \<in> set separators" "includesStr s pat"
        by (auto simp: hasSeparator_def separators_def)
      then obtain xs ys where "s = xs @ pat @ ys" by (auto simp: includesStr_iff)
      moreover have "pat \<noteq> []" "\<not> isSpace (hd pat)"
        using p(1) by (auto simp: separators_def isSpace_def code_def)
      ultimately have "hd pat \<in> set s" by (cases pat) auto
      then show False using b \<open>\<not> isSpace (hd pat)\<close> by blast
    qed
    then show ?thesis using plain b by (simp add: trim_Nil_iff)
  qed
  have ex: "map classify (splitPipelines ''a;;b'')
      = [Fragment ''a'', Separator '';'', Separator '';'', Fragment ''b'']"
    by (simp add: splitPipelines_def flush_def trim_def isSpace_def code_def classify_def
        separators_def)
  have bar: "splitPipelines (s @ ''||'' @ rest) = flush s [] @ [''||''] @ splitPipelines rest"
    if n: "\<not> hasSeparator s"
  proof -
    have "splitPipelines (s @ ''||'' @ rest) = splitLoop (''||'' @ rest) s []"
      using splitLoop_no_separator [OF n, of "''||'' @ rest" "[]" "[]"]
      by (simp add: splitPipelines_def startsWith_Cons)
    also have "\<dots> = splitLoop rest [] (flush s [] @ [''||''])"
      by (simp add: Let_def)
    also have "\<dots> = (flush s [] @ [''||'']) @ splitLoop rest [] []"
      by (rule splitLoop_parts)
    finally show ?thesis by (simp add: splitPipelines_def)
  qed
  have amp: "splitPipelines (s @ ''&&'' @ rest) = flush s [] @ [''&&''] @ splitPipelines rest"
    if n: "\<not> hasSeparator s" and l: "s = [] \<or> last s \<noteq> CHR ''&''"
  proof -
    have "splitPipelines (s @ ''&&'' @ rest) = splitLoop (''&&'' @ rest) s []"
      using splitLoop_no_separator [OF n, of "''&&'' @ rest" "[]" "[]"] l
      by (auto simp: splitPipelines_def)
    also have "\<dots> = splitLoop rest [] (flush s [] @ [''&&''])"
      by (simp add: Let_def)
    also have "\<dots> = (flush s [] @ [''&&'']) @ splitLoop rest [] []"
      by (rule splitLoop_parts)
    finally show ?thesis by (simp add: splitPipelines_def)
  qed
  have semi: "splitPipelines (s @ '';'' @ rest) = flush s [] @ ['';''] @ splitPipelines rest"
    if n: "\<not> hasSeparator s" for s rest
  proof -
    have "splitPipelines (s @ '';'' @ rest) = splitLoop ('';'' @ rest) s []"
      using splitLoop_no_separator [OF n, of "'';'' @ rest" "[]" "[]"]
      by (simp add: splitPipelines_def startsWith_Cons)
    also have "\<dots> = splitLoop rest [] (flush s [] @ ['';''])"
      by (simp add: Let_def)
    also have "\<dots> = (flush s [] @ ['';'']) @ splitLoop rest [] []"
      by (rule splitLoop_parts)
    finally show ?thesis by (simp add: splitPipelines_def)
  qed
  have pipe: "splitPipelines (s @ ''|'' @ rest) = flush s [] @ [''|''] @ splitPipelines rest"
    if n: "\<not> hasSeparator s" and r: "\<not> startsWith rest ''|''"
  proof -
    have two: "take 2 (CHR ''|'' # rest) \<noteq> ''||''"
      using r by (cases rest) (simp_all add: startsWith_def)
    have "splitPipelines (s @ ''|'' @ rest) = splitLoop (''|'' @ rest) s []"
      using splitLoop_no_separator [OF n, of "''|'' @ rest" "[]" "[]"]
      by (simp add: splitPipelines_def startsWith_Cons)
    also have "\<dots> = splitLoop rest [] (flush s [] @ [''|''])"
      using two by (simp add: Let_def)
    also have "\<dots> = (flush s [] @ [''|'']) @ splitLoop rest [] []"
      by (rule splitLoop_parts)
    finally show ?thesis by (simp add: splitPipelines_def)
  qed
  have adj: "map classify (splitPipelines (s @ '';;'' @ rest))
          = (if trim s = [] then [] else [Fragment (trim s)])
            @ [Separator '';'', Separator '';'']
            @ (if trim rest = [] then [] else [Fragment (trim rest)])"
    if n: "\<not> hasSeparator s" and r: "\<not> hasSeparator rest"
  proof -
    have e: "\<not> hasSeparator []" by (simp add: hasSeparator_def)
    have "splitPipelines (s @ '';;'' @ rest)
        = flush s [] @ ['';''] @ splitPipelines ('';'' @ rest)"
      using semi [OF n, of "'';'' @ rest"] by simp
    also have "splitPipelines ('';'' @ rest) = ['';''] @ splitPipelines rest"
      using semi [OF e, of rest] by (simp add: flush_def trim_def)
    finally have "splitPipelines (s @ '';;'' @ rest)
        = splitPipelines s @ ['';'', '';''] @ splitPipelines rest"
      using plain [OF n] by (simp add: flush_def)
    then show ?thesis
      using typed [OF n] typed [OF r] by (simp add: classify_def separators_def)
  qed
  show ?thesis using plain typed blank ex bar amp semi pipe adj by blast
qed

theorem splitPipelines_fragments_witness:
  "\<not> hasSeparator '' ls -la '' \<and> splitPipelines '' ls -la '' = [''ls -la'']
   \<and> list_all isSpace ''  '' \<and> splitPipelines ''  '' = []
   \<and> \<not> hasSeparator ''a'' \<and> last ''a'' \<noteq> CHR ''&''
   \<and> splitPipelines ''a||b'' = [''a'', ''||'', ''b'']
   \<and> splitPipelines ''a&&b'' = [''a'', ''&&'', ''b'']
   \<and> \<not> hasSeparator ''b'' \<and> \<not> startsWith ''b'' ''|''
   \<and> splitPipelines ''a;b'' = [''a'', '';'', ''b'']
   \<and> splitPipelines ''a|b'' = [''a'', ''|'', ''b'']
   \<and> \<not> hasSeparator '' c '' \<and> \<not> hasSeparator '' ''
   \<and> map classify (splitPipelines '' c ;; '') = [Fragment ''c'', Separator '';'', Separator '';'']
   \<and> map classify (splitPipelines ''a;;b'')
       = [Fragment ''a'', Separator '';'', Separator '';'', Fragment ''b'']"
proof -
  have n1: "\<not> hasSeparator '' ls -la ''" and n2: "\<not> hasSeparator ''a''"
    and n3: "\<not> hasSeparator ''b''" and n4: "\<not> hasSeparator '' c ''"
    and n5: "\<not> hasSeparator '' ''" and n6: "\<not> startsWith ''b'' ''|''"
    by (simp_all add: hasSeparator_def startsWith_def)
  have b: "\<forall>c \<in> set ''  ''. isSpace c" by (simp add: isSpace_def code_def)
  have t1: "trim '' ls -la '' = ''ls -la''" and t2: "trim ''a'' = ''a''"
    and t3: "trim ''b'' = ''b''" and t4: "trim '' c '' = ''c''" and t5: "trim '' '' = []"
    by (simp_all add: trim_def isSpace_def code_def)
  have l: "last ''a'' \<noteq> CHR ''&''" by simp
  show ?thesis
    using n1 n2 n3 n4 n5 n6 b l list_all_iff [of isSpace "''  ''"]
      splitPipelines_fragments [of "'' ls -la ''" "[]"]
      splitPipelines_fragments [of "''  ''" "[]"]
      splitPipelines_fragments [of "''a''" "''b''"]
      splitPipelines_fragments [of "''b''" "[]"]
      splitPipelines_fragments [of "'' c ''" "'' ''"]
    by (simp add: t1 t2 t3 t4 t5 flush_def)
qed

subsection \<open>Every element is a separator or a trimmed fragment\<close>

lemma flush_segments:
  "\<forall>seg \<in> set parts. isSegment seg \<Longrightarrow> \<forall>seg \<in> set (flush buf parts). isSegment seg"
  by (auto simp: flush_def isSegment_def trim_trim)

lemma splitLoop_segments:
  "\<forall>seg \<in> set parts. isSegment seg \<Longrightarrow> \<forall>seg \<in> set (splitLoop s buf parts). isSegment seg"
proof (induction s buf parts rule: splitLoop.induct)
  case (1 buf parts)
  then show ?case using flush_segments by simp
next
  case (2 ch rest buf parts)
  note fl = flush_segments [OF "2.prems", of buf]
  consider (two) "take 2 (ch # rest) = ''&&'' \<or> take 2 (ch # rest) = ''||''"
    | (one) "take 2 (ch # rest) \<noteq> ''&&''" "take 2 (ch # rest) \<noteq> ''||''"
            "ch = CHR ''|'' \<or> ch = CHR '';''"
    | (plain) "take 2 (ch # rest) \<noteq> ''&&''" "take 2 (ch # rest) \<noteq> ''||''"
            "ch \<noteq> CHR ''|''" "ch \<noteq> CHR '';''"
    by blast
  then show ?case
  proof cases
    case two
    then have "isSegment (take 2 (ch # rest))"
      unfolding isSegment_def separators_def by auto
    then have "\<forall>seg \<in> set (flush buf parts @ [take 2 (ch # rest)]). isSegment seg"
      using fl by simp
    then have "\<forall>seg \<in> set (splitLoop (tl rest) [] (flush buf parts @ [take 2 (ch # rest)])).
        isSegment seg"
      using "2.IH"(1) [OF refl two] by blast
    then show ?thesis by (simp only: splitLoop_two [OF two])
  next
    case one
    then have "isSegment [ch]" unfolding isSegment_def separators_def by auto
    then have "\<forall>seg \<in> set (flush buf parts @ [[ch]]). isSegment seg" using fl by simp
    then have "\<forall>seg \<in> set (splitLoop rest [] (flush buf parts @ [[ch]])). isSegment seg"
      using "2.IH"(2,3) one by (metis (full_types))
    then show ?thesis by (simp only: splitLoop_one [OF one])
  next
    case plain
    have "\<forall>seg \<in> set (splitLoop rest (buf @ [ch]) parts). isSegment seg"
      using "2.IH"(4) [OF refl _ plain(3,4)] plain(1,2) "2.prems" by blast
    then show ?thesis by (simp only: splitLoop_plain [OF plain])
  qed
qed

lemma splitPipelines_segments: "\<forall>seg \<in> set (splitPipelines raw). isSegment seg"
  using splitLoop_segments [of "[]" raw "[]"] by (simp add: splitPipelines_def)

section \<open>The per-segment translator\<close>

lemma execHeadTail_Some:
  assumes "execHeadTail cmd = Some (head, tail)"
  shows "cmd = head @ tail" and "head \<noteq> []" and "\<forall>c \<in> set head. \<not> isSpace c"
    and "tail = [] \<or> isSpace (hd tail)"
proof -
  from assms obtain c cs where c: "cmd = c # cs" "\<not> isSpace c"
    and h: "head = takeWhile (\<lambda>x. \<not> isSpace x) cmd"
    and t: "tail = dropWhile (\<lambda>x. \<not> isSpace x) cmd"
    by (auto simp: execHeadTail_def split: list.splits if_splits)
  show "cmd = head @ tail" using h t by simp
  show "head \<noteq> []" using h c by simp
  show "\<forall>c \<in> set head. \<not> isSpace c" using h by (auto dest: set_takeWhileD)
  show "tail = [] \<or> isSpace (hd tail)"
    using t hd_dropWhile [of "\<lambda>x. \<not> isSpace x" cmd] by auto
qed

lemma execHeadTail_None: "execHeadTail cmd = None \<longleftrightarrow> cmd = [] \<or> isSpace (hd cmd)"
  by (auto simp: execHeadTail_def split: list.splits)

lemma directMatch_None:
  "directMatch base lowerHead = None \<longleftrightarrow> (\<forall>key \<in> set (map fst base). toLowerCase key \<noteq> lowerHead)"
  by (auto simp: directMatch_def find_None_iff)

lemma directMatch_Some:
  "directMatch base lowerHead = Some (key, entry) \<Longrightarrow>
     (key, entry) \<in> set base \<and> toLowerCase key = lowerHead"
  unfolding directMatch_def by (induction base) (auto split: if_splits)

lemma translateSingle_cases:
  assumes "execHeadTail cmd = Some (head, tail)"
  shows "translateSingle cmd os (Some base) =
     (if \<not> truthy (replacementOf base os head) \<and> rmRule base os head tail
      then trim (the (mappedRmRf base os) @ '' '' @ stripRf (trim tail))
      else trim ((case replacementOf base os head of Some r \<Rightarrow> r | None \<Rightarrow> head) @ tail))"
  using assms
  by (auto simp: translateSingle_def rmRule_def Let_def truthy_def split: option.splits)

lemma translateSingle_no_base: "translateSingle cmd os None = translateSingle cmd os (Some [])"
  by (simp add: translateSingle_def)

lemma translateSingle_no_head:
  "execHeadTail cmd = None \<Longrightarrow> translateSingle cmd os m = cmd"
  by (simp add: translateSingle_def)

lemma trim_head_tail:
  assumes "execHeadTail cmd = Some (head, tail)" and "tail = [] \<or> \<not> isSpace (last tail)"
  shows "trim cmd = cmd"
proof -
  note h = execHeadTail_Some [OF assms(1)]
  have "cmd \<noteq> []" using h(1,2) by simp
  moreover have "\<not> isSpace (hd cmd)" using h(1,2,3) by (cases head) auto
  moreover have "\<not> isSpace (last cmd)"
  proof (cases "tail = []")
    case True
    then have "last cmd = last head" using h(1) by simp
    then show ?thesis using h(2,3) last_in_set by metis
  next
    case False
    then show ?thesis using h(1) assms(2) by simp
  qed
  ultimately show ?thesis by (rule trim_id)
qed

text \<open>
  A fragment of the splitter has a head, and no white space at its end.
\<close>

lemma fragment_head:
  assumes "isSegment seg" and "seg \<notin> set separators"
  shows "\<exists>head tail. execHeadTail seg = Some (head, tail) \<and> trim seg = seg"
proof -
  have n: "seg \<noteq> []" and t: "trim seg = seg"
    using assms by (auto simp: isSegment_def)
  then have "trim seg \<noteq> []" by simp
  then have "\<not> isSpace (hd (trim seg))" by (rule trim_ends)
  then have "\<not> isSpace (hd seg)" using t by simp
  then have "execHeadTail seg \<noteq> None" using n by (simp add: execHeadTail_None)
  then show ?thesis using t by auto
qed

lemma rm_facts:
  "execHeadTail ''rm -rf build'' = Some (''rm'', '' -rf build'')"
  "toLowerCase ''rm'' = ''rm''"
  "startsWith (trim '' -rf build'') ''-rf''"
  "mappedRmRf rmTable windows = Some ''rmdir /s /q''"
  "mappedRmRf rmEmptyTable windows = Some []"
  "list_all (\<lambda>key. toLowerCase key \<noteq> ''rm'') (map fst rmTable)"
  "list_all (\<lambda>key. toLowerCase key \<noteq> ''rm'') (map fst rmEmptyTable)"
  "trim (''rmdir /s /q'' @ '' '' @ dropWhile isSpace (drop 3 (trim '' -rf build''))) = ''rmdir /s /q build''"
  "trim ([] @ '' '' @ dropWhile isSpace (drop 3 (trim '' -rf build''))) = ''build''"
  "translateSingle ''rm -rf build'' windows (Some rmEmptyTable) = ''rm -rf build''"
  by code_simp+

text \<open>
  Claim C1, as stated: whenever the reserved key \<^verbatim>\<open>rm -rf\<close> has a replacement for the
  OS, the result is the replacement, a space and the rest of the tail. It is not when the
  replacement is the empty string: \<^verbatim>\<open>if (mapped)\<close> takes the empty string for a missing
  one, and the segment comes back as it was, not as \<^verbatim>\<open>build\<close>.
\<close>

theorem translateSingle_rm_rf_counterexample:
  "execHeadTail ''rm -rf build'' = Some (''rm'', '' -rf build'')
   \<and> list_all (\<lambda>key. toLowerCase key \<noteq> ''rm'') (map fst rmEmptyTable)
   \<and> toLowerCase ''rm'' = ''rm''
   \<and> startsWith (trim '' -rf build'') ''-rf''
   \<and> mappedRmRf rmEmptyTable windows = Some []
   \<and> translateSingle ''rm -rf build'' windows (Some rmEmptyTable) = ''rm -rf build''
   \<and> translateSingle ''rm -rf build'' windows (Some rmEmptyTable)
       \<noteq> trim ([] @ '' '' @ dropWhile isSpace (drop 3 (trim '' -rf build'')))"
  by (simp only: rm_facts simp_thms) simp

text \<open>
  Claim C1, amended. For every OS and table: if no base key is equal to the head up to
  case, the lowered head is \<^verbatim>\<open>rm\<close>, the trimmed tail starts with \<^verbatim>\<open>-rf\<close> and the reserved
  key \<^verbatim>\<open>rm -rf\<close> has a non-empty replacement for the OS, then the result is the
  replacement, a space, and the trimmed tail without its leading \<^verbatim>\<open>-rf\<close> and the white
  space after it, all trimmed.
\<close>

theorem translateSingle_rm_rf:
  assumes "execHeadTail cmd = Some (head, tail)"
    and "\<forall>key \<in> set (map fst base). toLowerCase key \<noteq> toLowerCase head"
    and "toLowerCase head = ''rm''"
    and "startsWith (trim tail) ''-rf''"
    and "mappedRmRf base os = Some mapped"
    and "mapped \<noteq> []"
  shows "translateSingle cmd os (Some base)
           = trim (mapped @ '' '' @ dropWhile isSpace (drop 3 (trim tail)))"
proof -
  have "directMatch base (toLowerCase head) = None"
    using assms(2) by (simp only: directMatch_None)
  then have "replacementOf base os head = None" by (simp add: replacementOf_def)
  then show ?thesis
    using assms by (simp add: translateSingle_cases rmRule_def truthy_def stripRf_def)
qed

text \<open>
  The example of the specification: \<^verbatim>\<open>rm -rf build\<close> on windows, with the reserved key
  mapped to \<^verbatim>\<open>rmdir /s /q\<close>.
\<close>

theorem translateSingle_rm_rf_witness:
  "execHeadTail ''rm -rf build'' = Some (''rm'', '' -rf build'')
   \<and> list_all (\<lambda>key. toLowerCase key \<noteq> ''rm'') (map fst rmTable)
   \<and> toLowerCase ''rm'' = ''rm''
   \<and> startsWith (trim '' -rf build'') ''-rf''
   \<and> mappedRmRf rmTable windows = Some ''rmdir /s /q''
   \<and> translateSingle ''rm -rf build'' windows (Some rmTable) = ''rmdir /s /q build''"
proof -
  have n: "\<forall>key \<in> set (map fst rmTable). toLowerCase key \<noteq> toLowerCase ''rm''"
    using rm_facts(6) by (simp only: list_all_iff rm_facts(2))
  have ne: "''rmdir /s /q'' \<noteq> []" by simp
  show ?thesis
    using translateSingle_rm_rf [OF rm_facts(1) n rm_facts(2) rm_facts(3) rm_facts(4) ne]
    by (simp only: rm_facts simp_thms)
qed

lemma ls_facts:
  "execHeadTail ''LS'' = Some (''LS'', [])"
  "execHeadTail ''ls -la'' = Some (''ls'', '' -la'')"
  "execHeadTail ''foo bar'' = Some (''foo'', '' bar'')"
  "toLowerCase ''LS'' = ''ls''"
  "toLowerCase ''ls'' = ''ls''"
  "toLowerCase ''foo'' = ''foo''"
  "lsEntry darwin = Some ''ls''"
  "lsEntry windows = Some ''dir''"
  "lsEntry linux = None"
  "list_all (\<lambda>key. toLowerCase key \<noteq> ''foo'') (map fst lsTable)"
  "\<not> rmRule lsTable windows ''foo'' '' bar''"
  "trim ''ls'' = ''ls''"
  "trim ''dir -la'' = ''dir -la''"
  "trim ''ls -la'' = ''ls -la''"
  "isSpace (last '' bar'') = False"
  by code_simp+

lemma directMatch_ls: "directMatch lsTable ''ls'' = Some (''ls'', lsEntry)"
  by (simp add: directMatch_def lsTable_def ls_facts)

text \<open>
  What the translator does with a segment that has a head. If a base key is equal to the
  head up to case, the first such key in the order of the table gives the replacement,
  its value for the OS or the head itself when it has none, and the result is the
  replacement followed by the tail, trimmed, unless the replacement is empty and the
  recursive-delete rule applies; then the result is the one of the rule. If no base key
  is equal to the head up to case and the rule does not apply, the result is the segment
  trimmed, which is the segment itself when it does not end in white space.
\<close>

lemma translateSingle_head:
  assumes "execHeadTail cmd = Some (head, tail)"
  shows "cmd = head @ tail \<and> head \<noteq> [] \<and> (\<forall>c \<in> set head. \<not> isSpace c)
       \<and> (tail = [] \<or> isSpace (hd tail))
       \<and> (\<forall>key entry repl.
            directMatch base (toLowerCase head) = Some (key, entry)
            \<and> repl = (case entry os of Some v \<Rightarrow> v | None \<Rightarrow> head)
            \<longrightarrow> (key, entry) \<in> set base \<and> toLowerCase key = toLowerCase head
              \<and> (repl \<noteq> [] \<or> \<not> rmRule base os head tail
                    \<longrightarrow> translateSingle cmd os (Some base) = trim (repl @ tail))
              \<and> (repl = [] \<and> rmRule base os head tail
                    \<longrightarrow> (\<exists>mapped. mappedRmRf base os = Some mapped \<and> mapped \<noteq> []
                          \<and> translateSingle cmd os (Some base)
                              = trim (mapped @ '' '' @ dropWhile isSpace (drop 3 (trim tail))))))
       \<and> ((\<forall>key \<in> set (map fst base). toLowerCase key \<noteq> toLowerCase head)
            \<and> \<not> rmRule base os head tail
            \<longrightarrow> translateSingle cmd os (Some base) = trim cmd
              \<and> (tail = [] \<or> \<not> isSpace (last tail)
                    \<longrightarrow> translateSingle cmd os (Some base) = cmd))"
proof -
  note h = execHeadTail_Some [OF assms]
  have m: "(key, entry) \<in> set base \<and> toLowerCase key = toLowerCase head
      \<and> (repl \<noteq> [] \<or> \<not> rmRule base os head tail
            \<longrightarrow> translateSingle cmd os (Some base) = trim (repl @ tail))
      \<and> (repl = [] \<and> rmRule base os head tail
            \<longrightarrow> (\<exists>mapped. mappedRmRf base os = Some mapped \<and> mapped \<noteq> []
                  \<and> translateSingle cmd os (Some base)
                      = trim (mapped @ '' '' @ dropWhile isSpace (drop 3 (trim tail)))))"
    if d: "directMatch base (toLowerCase head) = Some (key, entry)"
      and r: "repl = (case entry os of Some v \<Rightarrow> v | None \<Rightarrow> head)"
    for key entry repl
  proof -
    have ro: "replacementOf base os head = Some repl"
      using d r by (simp add: replacementOf_def)
    have a: "translateSingle cmd os (Some base) = trim (repl @ tail)"
      if "repl \<noteq> [] \<or> \<not> rmRule base os head tail"
      using that by (auto simp: translateSingle_cases [OF assms] ro truthy_def)
    have b: "\<exists>mapped. mappedRmRf base os = Some mapped \<and> mapped \<noteq> []
        \<and> translateSingle cmd os (Some base)
            = trim (mapped @ '' '' @ dropWhile isSpace (drop 3 (trim tail)))"
      if "repl = [] \<and> rmRule base os head tail"
      using that
      by (auto simp: translateSingle_cases [OF assms] ro truthy_def rmRule_def stripRf_def
          split: option.splits)
    show ?thesis using directMatch_Some [OF d] a b by blast
  qed
  have n: "translateSingle cmd os (Some base) = trim cmd
      \<and> (tail = [] \<or> \<not> isSpace (last tail) \<longrightarrow> translateSingle cmd os (Some base) = cmd)"
    if k: "\<forall>key \<in> set (map fst base). toLowerCase key \<noteq> toLowerCase head"
      and nr: "\<not> rmRule base os head tail"
  proof -
    have "directMatch base (toLowerCase head) = None"
      using k by (simp only: directMatch_None)
    then have "replacementOf base os head = None" by (simp add: replacementOf_def)
    then have "translateSingle cmd os (Some base) = trim (head @ tail)"
      using nr by (simp add: translateSingle_cases [OF assms])
    then have "translateSingle cmd os (Some base) = trim cmd"
      using h(1) by simp
    then show ?thesis using trim_head_tail [OF assms] by auto
  qed
  show ?thesis using h m n by blast
qed

text \<open>
  The examples of the specification: \<^verbatim>\<open>LS\<close> on darwin, \<^verbatim>\<open>ls -la\<close> on windows and
  \<^verbatim>\<open>foo bar\<close>; and \<^verbatim>\<open>ls -la\<close> on linux, where the key has no entry.
\<close>

lemma translateSingle_head_examples:
  "execHeadTail ''LS'' = Some (''LS'', [])
   \<and> directMatch lsTable (toLowerCase ''LS'') = Some (''ls'', lsEntry)
   \<and> lsEntry darwin = Some ''ls''
   \<and> translateSingle ''LS'' darwin (Some lsTable) = ''ls''
   \<and> execHeadTail ''ls -la'' = Some (''ls'', '' -la'')
   \<and> lsEntry windows = Some ''dir''
   \<and> translateSingle ''ls -la'' windows (Some lsTable) = ''dir -la''
   \<and> lsEntry linux = None
   \<and> translateSingle ''ls -la'' linux (Some lsTable) = ''ls -la''
   \<and> execHeadTail ''foo bar'' = Some (''foo'', '' bar'')
   \<and> list_all (\<lambda>key. toLowerCase key \<noteq> ''foo'') (map fst lsTable)
   \<and> \<not> rmRule lsTable windows ''foo'' '' bar''
   \<and> translateSingle ''foo bar'' windows (Some lsTable) = ''foo bar''"
proof -
  have d1: "directMatch lsTable (toLowerCase ''LS'') = Some (''ls'', lsEntry)"
    and d2: "directMatch lsTable (toLowerCase ''ls'') = Some (''ls'', lsEntry)"
    by (simp_all only: ls_facts directMatch_ls)
  have a: "translateSingle ''LS'' darwin (Some lsTable) = ''ls''"
    using translateSingle_head [OF ls_facts(1), of lsTable darwin] d1
    by (simp add: ls_facts)
  have b: "translateSingle ''ls -la'' windows (Some lsTable) = ''dir -la''"
    using translateSingle_head [OF ls_facts(2), of lsTable windows] d2
    by (simp add: ls_facts)
  have c: "translateSingle ''ls -la'' linux (Some lsTable) = ''ls -la''"
    using translateSingle_head [OF ls_facts(2), of lsTable linux] d2
    by (simp add: ls_facts)
  have k: "\<forall>key \<in> set (map fst lsTable). toLowerCase key \<noteq> toLowerCase ''foo''"
    using ls_facts(10) by (simp only: list_all_iff ls_facts(6))
  have d: "translateSingle ''foo bar'' windows (Some lsTable) = ''foo bar''"
    using translateSingle_head [OF ls_facts(3), of lsTable windows] k ls_facts(11,15)
    by blast
  show ?thesis
    using a b c d d1 by (simp only: ls_facts simp_thms)
qed

text \<open>
  Claim C2. The claim: whenever a base key matches the head, the head is replaced by that
  key's value for the OS, and the result is the replacement followed by the unmodified
  tail, trimmed. The lines \<^verbatim>\<open>replacement = base[key]?.[os] ?? head\<close> and
  \<^verbatim>\<open>`${replacement ?? head}${tail}`\<close> keep an empty value as the replacement, and only
  a missing one falls back to the head; but the test \<^verbatim>\<open>if (!replacement)\<close>, which is
  there for the case of no direct match, is also true of an empty replacement, and lets
  the recursive-delete rule answer for a head that a key matched. Here the key \<^verbatim>\<open>rm\<close>
  matches the head and has the empty value for windows: the claimed result is the tail
  trimmed, \<^verbatim>\<open>-rf x\<close>, and the result is \<^verbatim>\<open>rmdir /s /q x\<close>. With no value for
  windows under the same key, the rule is not applied, and the segment comes back as it
  was.
\<close>

theorem translateSingle_empty_replacement:
  "execHeadTail ''rm -rf x'' = Some (''rm'', '' -rf x'')
   \<and> map_option fst (directMatch rmShadowTable (toLowerCase ''rm'')) = Some ''rm''
   \<and> replacementOf rmShadowTable windows ''rm'' = Some []
   \<and> trim ([] @ '' -rf x'') = ''-rf x''
   \<and> translateSingle ''rm -rf x'' windows (Some rmShadowTable) = ''rmdir /s /q x''
   \<and> map_option fst (directMatch rmAbsentTable (toLowerCase ''rm'')) = Some ''rm''
   \<and> map_option (\<lambda>(key, entry). entry windows) (directMatch rmAbsentTable (toLowerCase ''rm''))
       = Some None
   \<and> translateSingle ''rm -rf x'' windows (Some rmAbsentTable) = ''rm -rf x''"
  by code_simp

section \<open>The store and the resolver\<close>

lemma loadJsonProjectCommands_stored:
  "projectCommandsFile w = Some t \<Longrightarrow> loadJsonProjectCommands fallback w = (t, w)"
  by (simp add: loadJsonProjectCommands_def)

lemma loadJsonCommandMap_keeps:
  "projectCommandsFile (snd (loadJsonCommandMap fb w)) = projectCommandsFile w"
  "spawned (snd (loadJsonCommandMap fb w)) = spawned w"
  by (simp_all add: loadJsonCommandMap_def split: option.splits)

lemma stored_exampleTable:
  "projectCommandsFile (storedWorld exampleTable) = Some exampleTable"
  by (simp add: storedWorld_def worldWith_def)

text \<open>
  Where no inherited member is in the way, a read finds the own entry and nothing else.
\<close>

lemma entryOf_own:
  assumes "data name = None \<longrightarrow> rt name = None" and "rt key = None"
  shows "entryOf rt data name key = Inr (map_option Str (ownEntry data name key))"
  using assms
  by (auto simp: entryOf_def lookupTable_def readKey_def ownEntry_def split: option.splits)

lemma resolve_stored:
  "projectCommandsFile w = Some t \<Longrightarrow>
     resolveProjectCommand rt p k w =
       (case entryOf rt t ''default'' k of
          Inl e \<Rightarrow> Inl e
        | Inr fromDefault \<Rightarrow>
            (case entryOf rt t p k of
               Inl e \<Rightarrow> Inl e
             | Inr fromProject \<Rightarrow>
                 Inr (case fromProject of Some v \<Rightarrow> Some v | None \<Rightarrow> fromDefault)), w)"
  by (simp add: resolveProjectCommand_def loadJsonProjectCommands_stored split: sum.splits)

lemma resolveProjectCommand_own_names:
  assumes "projectCommandsFile w = Some t"
    and "t p = None \<longrightarrow> rt p = None"
    and "t ''default'' = None \<longrightarrow> rt ''default'' = None"
    and "rt k = None"
  shows "resolveProjectCommand rt p k w =
           (Inr (map_option Str (case ownEntry t p k of
                                   Some v \<Rightarrow> Some v
                                 | None \<Rightarrow> ownEntry t ''default'' k)), w)"
  using assms
  by (simp add: resolve_stored entryOf_own split: option.splits)

text \<open>
  Claim C4. The claim: for every stored table, project name and key, the resolver returns
  the project's own entry when the project's sub-mapping defines the key, otherwise the
  entry of \<^verbatim>\<open>"default"\<close>, and nothing exactly when neither defines the key. The code
  does so for names that no plain object inherits (the lemma above), and not otherwise:
  its lookups \<^verbatim>\<open>fileData[projectName]?.[key]\<close> are plain ones, where the sibling
  \<^verbatim>\<open>removeProjectCommand\<close> asks \<^verbatim>\<open>hasOwnProperty\<close>. For the project \<^verbatim>\<open>constructor\<close> and
  the key \<^verbatim>\<open>name\<close>, which neither the project's sub-mapping nor \<^verbatim>\<open>"default"\<close> defines,
  the resolver returns the name of the function \<^verbatim>\<open>Object\<close>.
\<close>

theorem resolveProjectCommand_inherited:
  "ownEntry exampleTable ''constructor'' ''name'' = None
   \<and> ownEntry exampleTable ''default'' ''name'' = None
   \<and> fst (resolveProjectCommand exampleRuntime ''constructor'' ''name''
            (storedWorld exampleTable)) = Inr (Some (Str ''Object''))"
  by code_simp

section \<open>Removal of a project command\<close>

lemma lookupTable_own:
  "t p = Some cmds \<Longrightarrow> lookupTable rt t p = Some (Own cmds)"
  by (simp add: lookupTable_def)

lemma lookupTable_none:
  "t p = None \<Longrightarrow> rt p = None \<Longrightarrow> lookupTable rt t p = None"
  by (simp add: lookupTable_def)

lemma remove_none:
  assumes "projectCommandsFile w = Some t" and "t p = None" and "rt p = None"
  shows "removeProjectCommand rt p k w = (Inr False, w)"
  using assms
  by (simp add: removeProjectCommand_def loadJsonProjectCommands_stored lookupTable_none)

lemma remove_facts:
  "exampleTable ''p'' = Some [''install'' \<mapsto> ''bun install'']"
  "exampleTable ''q'' = None"
  "exampleRuntime ''p'' = None"
  "exampleRuntime ''q'' = None"
  "ownEntry exampleTable ''p'' ''install'' = Some ''bun install''"
  "ownEntry exampleTable ''p'' ''test'' = None"
  "ownEntry exampleTable ''q'' ''install'' = None"
  "written (storedWorld exampleTable) = []"
  by (simp_all add: exampleTable_def exampleRuntime_def ownEntry_def storedWorld_def
      worldWith_def)

text \<open>
  Claim C5, as stated: \<^verbatim>\<open>removeProjectCommand\<close> writes the table back whether or not
  anything was removed. It does not when the project has no sub-mapping: the function
  returns before the write. Here the project \<^verbatim>\<open>q\<close> is not in the stored table, and
  the list of written paths does not grow.
\<close>

theorem removeProjectCommand_persist_counterexample:
  "projectCommandsFile (storedWorld exampleTable) = Some exampleTable
   \<and> fst (removeProjectCommand exampleRuntime ''q'' ''install'' (storedWorld exampleTable))
       = Inr False
   \<and> written (snd (removeProjectCommand exampleRuntime ''q'' ''install''
                     (storedWorld exampleTable)))
       \<noteq> written (storedWorld exampleTable) @ [PROJECT_COMMANDS_PATH]"
  by (simp add: remove_none [OF stored_exampleTable] remove_facts stored_exampleTable)

text \<open>
  Claim C5, amended. With the table \<open>t\<close> in the store, for every key and every project
  name that has a sub-mapping of its own or else is not a name that a plain object
  inherits: \<^verbatim>\<open>removed\<close> is true exactly when the key is defined in the project's own
  sub-mapping, and for a project other than \<^verbatim>\<open>"default"\<close> it does not depend on the
  sub-mapping of \<^verbatim>\<open>"default"\<close>; when the project has a sub-mapping, the table with the
  key taken out of that sub-mapping is written back, whether or not the key was in it;
  when the project has no sub-mapping nothing is written and the world is unchanged; and
  when the key is not defined for the project the stored table is the same as before.
\<close>

theorem removeProjectCommand_persist:
  assumes "projectCommandsFile w = Some t"
    and "t p = None \<longrightarrow> rt p = None"
  shows "fst (removeProjectCommand rt p k w) = Inr (ownEntry t p k \<noteq> None)
       \<and> (p \<noteq> ''default'' \<longrightarrow>
            fst (removeProjectCommand rt p k
                   (w\<lparr>projectCommandsFile := Some (t(''default'' := d))\<rparr>))
              = fst (removeProjectCommand rt p k w))
       \<and> (\<forall>cmds. t p = Some cmds \<longrightarrow>
            snd (removeProjectCommand rt p k w)
              = w\<lparr>projectCommandsFile := Some (t(p \<mapsto> cmds(k := None))),
                  written := written w @ [PROJECT_COMMANDS_PATH]\<rparr>)
       \<and> (t p = None \<longrightarrow> snd (removeProjectCommand rt p k w) = w)
       \<and> (ownEntry t p k = None \<longrightarrow>
            projectCommandsFile (snd (removeProjectCommand rt p k w)) = Some t)"
proof -
  have own: "removeProjectCommand rt p k v =
      (Inr (cmds k \<noteq> None),
       v\<lparr>projectCommandsFile := Some (u(p \<mapsto> cmds(k := None))),
         written := written v @ [PROJECT_COMMANDS_PATH]\<rparr>)"
    if "projectCommandsFile v = Some u" and "u p = Some cmds" for u v cmds
    using that
    by (simp add: removeProjectCommand_def loadJsonProjectCommands_def lookupTable_def
        saveJsonProjectCommands_def Let_def)
  have none: "removeProjectCommand rt p k v = (Inr False, v)"
    if "projectCommandsFile v = Some u" and "u p = None" and "rt p = None" for u v
    using that
    by (simp add: removeProjectCommand_def loadJsonProjectCommands_def lookupTable_def)
  show ?thesis
  proof (cases "t p")
    case None
    then have r: "rt p = None" using assms(2) by simp
    have 1: "removeProjectCommand rt p k w = (Inr False, w)"
      using assms(1) None r by (rule none)
    have 2: "removeProjectCommand rt p k (w\<lparr>projectCommandsFile := Some (t(''default'' := d))\<rparr>)
        = (Inr False, w\<lparr>projectCommandsFile := Some (t(''default'' := d))\<rparr>)"
      if "p \<noteq> ''default''"
      using that None r by (intro none [where u = "t(''default'' := d)"]) simp_all
    show ?thesis using None assms(1) 1 2 by (simp add: ownEntry_def)
  next
    case (Some cmds)
    note 1 = own [OF assms(1) Some]
    have 2: "fst (removeProjectCommand rt p k
        (w\<lparr>projectCommandsFile := Some (t(''default'' := d))\<rparr>)) = Inr (cmds k \<noteq> None)"
      if "p \<noteq> ''default''"
    proof -
      have "(t(''default'' := d)) p = Some cmds" using that Some by simp
      then show ?thesis
        using own [where u = "t(''default'' := d)" and cmds = cmds]
        by simp
    qed
    have 3: "t(p \<mapsto> cmds(k := None)) = t" if "cmds k = None"
    proof -
      have "cmds(k := None) = cmds" using that by (simp add: fun_upd_idem)
      then show ?thesis using Some by (simp add: fun_upd_idem)
    qed
    show ?thesis using Some 1 2 3 by (simp add: ownEntry_def)
  qed
qed

theorem removeProjectCommand_persist_witness:
  "projectCommandsFile (storedWorld exampleTable) = Some exampleTable
   \<and> exampleTable ''p'' = Some [''install'' \<mapsto> ''bun install'']
   \<and> exampleTable ''q'' = None \<and> exampleRuntime ''q'' = None
   \<and> fst (removeProjectCommand exampleRuntime ''p'' ''install'' (storedWorld exampleTable))
       = Inr True
   \<and> snd (removeProjectCommand exampleRuntime ''p'' ''install'' (storedWorld exampleTable))
       = (storedWorld exampleTable)
           \<lparr>projectCommandsFile := Some (exampleTable(''p'' \<mapsto> Map.empty)),
            written := [PROJECT_COMMANDS_PATH]\<rparr>
   \<and> fst (removeProjectCommand exampleRuntime ''p'' ''test'' (storedWorld exampleTable))
       = Inr False
   \<and> written (snd (removeProjectCommand exampleRuntime ''p'' ''test'' (storedWorld exampleTable)))
       = [PROJECT_COMMANDS_PATH]
   \<and> projectCommandsFile
        (snd (removeProjectCommand exampleRuntime ''p'' ''test'' (storedWorld exampleTable)))
       = Some exampleTable
   \<and> removeProjectCommand exampleRuntime ''q'' ''install'' (storedWorld exampleTable)
       = (Inr False, storedWorld exampleTable)"
proof -
  have hp: "exampleTable ''p'' = None \<longrightarrow> exampleRuntime ''p'' = None"
    and hq: "exampleTable ''q'' = None \<longrightarrow> exampleRuntime ''q'' = None"
    by (simp_all add: remove_facts)
  note p = removeProjectCommand_persist
    [where t = exampleTable and p = "''p''" and rt = exampleRuntime, OF stored_exampleTable hp]
  note q = removeProjectCommand_persist
    [where t = exampleTable and p = "''q''" and rt = exampleRuntime and k = "''install''",
     OF stored_exampleTable hq]
  have q': "removeProjectCommand exampleRuntime ''q'' ''install'' (storedWorld exampleTable)
      = (Inr False, storedWorld exampleTable)"
    using q by (simp add: remove_facts prod_eq_iff)
  show ?thesis
    using stored_exampleTable p [of "''install''"] p [of "''test''"] q'
    by (simp add: remove_facts
        map_upd_triv [where t = exampleTable and k = "''p''", OF remove_facts(1)])
qed

text \<open>
  Under an inherited name the guard is passed: the call deletes the own property
  \<^verbatim>\<open>name\<close> of the function \<^verbatim>\<open>Object\<close>, reports it as removed and writes the table back
  as it was; the own property \<^verbatim>\<open>prototype\<close> cannot be deleted, and the call throws.
\<close>

lemma removeProjectCommand_inherited_example:
  "fst (removeProjectCommand exampleRuntime ''constructor'' ''name'' (storedWorld exampleTable))
     = Inr True"
  "written (snd (removeProjectCommand exampleRuntime ''constructor'' ''name''
      (storedWorld exampleTable))) = [PROJECT_COMMANDS_PATH]"
  "deletedInherited (snd (removeProjectCommand exampleRuntime ''constructor'' ''name''
      (storedWorld exampleTable))) = [(''constructor'', ''name'')]"
  "fst (removeProjectCommand exampleRuntime ''constructor'' ''prototype''
      (storedWorld exampleTable)) = Inl TypeError"
  by code_simp+

section \<open>The suggestion engine\<close>

text \<open>
  Claim C7. Two calls of \<^verbatim>\<open>buildSuggestion\<close> with the same command, flavour and key
  return the same suggestion or both none, whatever the two \<^verbatim>\<open>stderr\<close> arguments are;
  and with all five flavour flags false there is no suggestion. (The function reads no
  state: its only stateful objects are regular expression literals, used once each.)
\<close>

theorem buildSuggestion_two_run:
  "buildSuggestion cmd stderr1 fl key = buildSuggestion cmd stderr2 fl key
   \<and> (\<not> bun fl \<and> \<not> yarn fl \<and> \<not> pnpm fl \<and> \<not> poetry fl \<and> \<not> pipenv fl
        \<longrightarrow> buildSuggestion cmd stderr1 fl key = None)"
  by (simp add: buildSuggestion_def pipSuggestion_def Let_def)

theorem buildSuggestion_two_run_witness:
  "buildSuggestion ''npm install pip'' ''first'' noFlavor (Some ''install'')
     = buildSuggestion ''npm install pip'' ''second'' noFlavor (Some ''install'')
   \<and> \<not> bun noFlavor \<and> \<not> yarn noFlavor \<and> \<not> pnpm noFlavor \<and> \<not> poetry noFlavor
   \<and> \<not> pipenv noFlavor
   \<and> buildSuggestion ''npm install pip'' ''first'' noFlavor (Some ''install'') = None"
proof -
  have off: "\<not> bun noFlavor \<and> \<not> yarn noFlavor \<and> \<not> pnpm noFlavor \<and> \<not> poetry noFlavor
      \<and> \<not> pipenv noFlavor"
    by (simp add: noFlavor_def)
  show ?thesis
    using off buildSuggestion_two_run
      [of "''npm install pip''" "''first''" noFlavor "Some ''install''" "''second''"]
    by blast
qed

subsection \<open>Lowering keeps whole-word matches\<close>

lemma code_CHR: "c = d \<longleftrightarrow> code c = code d"
  by (simp add: code_def)

lemma code_lt: "code c < 256"
  by (simp add: code_def)

lemma code_char_of: "n < 256 \<Longrightarrow> code (char_of n) = n"
  by (simp add: code_def)

lemma isWord_toLowerChar: "isWord (toLowerChar c) = isWord c"
proof -
  have lt: "code c < 256" by (rule code_lt)
  show ?thesis
  proof (cases "isUpperAZ c \<or> (192 \<le> code c \<and> code c \<le> 222 \<and> code c \<noteq> 215)")
    case True
    then have "code (toLowerChar c) = code c + 32"
      using lt by (auto simp: toLowerChar_def code_char_of isUpperAZ_def)
    then show ?thesis using True
      by (auto simp: isWord_def isUpperAZ_def isLowerAZ_def isDigit_def code_CHR [of _ "CHR ''_''"])
        (simp_all add: code_def)
  next
    case False
    then have "toLowerChar c = c" unfolding toLowerChar_def by (simp only: if_False)
    then show ?thesis by simp
  qed
qed

lemma charAt_map: "charAt (map f s) i = map_option f (charAt s i)"
  by (simp add: charAt_def)

lemma isWordAt_lower: "isWordAt (map_option toLowerChar c) = isWordAt c"
  by (cases c) (simp_all add: isWordAt_def isWord_toLowerChar)

lemma startsWith_map: "startsWith s pat \<Longrightarrow> startsWith (map f s) (map f pat)"
  by (auto simp: startsWith_iff)

lemma matchesAt_lower:
  assumes "matchesAt pat prev s" and "toLowerCase pat = pat"
  shows "matchesAt pat (map_option toLowerChar prev) (toLowerCase s)"
proof -
  have "startsWith (toLowerCase s) pat"
    using startsWith_map [of s pat toLowerChar] assms by (simp add: matchesAt_def toLowerCase_def)
  then show ?thesis
    using assms(1)
    by (simp add: matchesAt_def toLowerCase_def charAt_map wordBoundary_def isWordAt_lower)
qed

lemma testFrom_lower:
  "testFrom pat prev s \<Longrightarrow> toLowerCase pat = pat \<Longrightarrow>
     testFrom pat (map_option toLowerChar prev) (toLowerCase s)"
proof (induction s arbitrary: prev)
  case Nil
  then show ?case by simp
next
  case (Cons c cs)
  from Cons.prems(1) consider "matchesAt pat prev (c # cs)" | "testFrom pat (Some c) cs"
    by auto
  then show ?case
  proof cases
    case 1
    then have "matchesAt pat (map_option toLowerChar prev) (toLowerCase (c # cs))"
      using Cons.prems(2) by (rule matchesAt_lower)
    then show ?thesis by (simp add: toLowerCase_def)
  next
    case 2
    then have "testFrom pat (map_option toLowerChar (Some c)) (toLowerCase cs)"
      using Cons.prems(2) by (rule Cons.IH)
    then show ?thesis by (simp add: toLowerCase_def)
  qed
qed

lemma testWord_lower:
  "testWord pat s \<Longrightarrow> toLowerCase pat = pat \<Longrightarrow> testWord pat (toLowerCase s)"
  using testFrom_lower [of pat None s] by (simp add: testWord_def)

subsection \<open>Whole words\<close>

text \<open>
  For a pattern of word characters, a match of the pattern between two \<^verbatim>\<open>\b\<close> is a
  whole word equal to the pattern.
\<close>

lemma matchesAt_nonword:
  assumes "\<forall>c \<in> set pat. isWord c" and "\<not> isWord c"
  shows "\<not> matchesAt pat prev (c # cs)"
proof
  assume m: "matchesAt pat prev (c # cs)"
  then obtain p ps where "pat = p # ps" by (cases pat) (auto simp: matchesAt_def)
  then show False using m assms by (auto simp: matchesAt_def startsWith_Cons)
qed

lemma matchesAt_inword:
  assumes "isWordAt prev" and "isWord c"
  shows "\<not> matchesAt pat prev (c # cs)"
  using assms by (simp add: matchesAt_def wordBoundary_def charAt_def isWordAt_def)

lemma takeWhile_run:
  assumes "\<forall>c \<in> set pat. P c"
  shows "takeWhile P s = pat \<longleftrightarrow> (\<exists>ys. s = pat @ ys \<and> (ys = [] \<or> \<not> P (hd ys)))"
proof
  assume t: "takeWhile P s = pat"
  have "s = pat @ dropWhile P s" using t takeWhile_dropWhile_id [of P s] by simp
  moreover have "dropWhile P s = [] \<or> \<not> P (hd (dropWhile P s))"
    using hd_dropWhile [of P s] by blast
  ultimately show "\<exists>ys. s = pat @ ys \<and> (ys = [] \<or> \<not> P (hd ys))" by blast
next
  assume "\<exists>ys. s = pat @ ys \<and> (ys = [] \<or> \<not> P (hd ys))"
  then obtain ys where s: "s = pat @ ys" and y: "ys = [] \<or> \<not> P (hd ys)" by blast
  have "takeWhile P ys = []" using y by (cases ys) auto
  then show "takeWhile P s = pat" using assms s by (simp add: takeWhile_append2)
qed

lemma charAt_append_last:
  "pat \<noteq> [] \<Longrightarrow> charAt (pat @ ys) (length pat - Suc 0) = Some (last pat)"
  by (cases pat rule: rev_cases) (simp_all add: charAt_def nth_append)

lemma charAt_last: "pat \<noteq> [] \<Longrightarrow> charAt pat (length pat - Suc 0) = Some (last pat)"
  using charAt_append_last [of pat "[]"] by simp

lemma charAt_end: "charAt pat (length pat) = None"
  by (simp add: charAt_def)

lemma charAt_append_next:
  "charAt (pat @ ys) (length pat) = (case ys of [] \<Rightarrow> None | y # _ \<Rightarrow> Some y)"
  by (cases ys) (simp_all add: charAt_def nth_append)

lemma matchesAt_run:
  assumes pat: "pat \<noteq> []" "\<forall>c \<in> set pat. isWord c"
    and prev: "\<not> isWordAt prev" and c: "isWord c"
  shows "matchesAt pat prev (c # cs) \<longleftrightarrow> c # takeWhile isWord cs = pat"
proof -
  have t: "c # takeWhile isWord cs = takeWhile isWord (c # cs)" using c by simp
  have "matchesAt pat prev (c # cs)
      \<longleftrightarrow> (\<exists>ys. c # cs = pat @ ys \<and> (ys = [] \<or> \<not> isWord (hd ys)))"
  proof
    assume m: "matchesAt pat prev (c # cs)"
    then obtain ys where s: "c # cs = pat @ ys" by (auto simp: matchesAt_def startsWith_iff)
    have "wordBoundary (charAt (pat @ ys) (length pat - 1)) (charAt (pat @ ys) (length pat))"
      using m s by (simp add: matchesAt_def)
    then have "ys = [] \<or> \<not> isWord (hd ys)"
      using pat
      by (cases ys) (simp_all add: charAt_append_last charAt_append_next charAt_last charAt_end
          wordBoundary_def isWordAt_def)
    then show "\<exists>ys. c # cs = pat @ ys \<and> (ys = [] \<or> \<not> isWord (hd ys))" using s by blast
  next
    assume "\<exists>ys. c # cs = pat @ ys \<and> (ys = [] \<or> \<not> isWord (hd ys))"
    then obtain ys where s: "c # cs = pat @ ys" and y: "ys = [] \<or> \<not> isWord (hd ys)" by blast
    have 1: "startsWith (c # cs) pat" using s by (auto simp: startsWith_iff)
    have 2: "wordBoundary prev (charAt (c # cs) 0)"
      using prev c by (simp add: wordBoundary_def charAt_def isWordAt_def)
    have 3: "wordBoundary (charAt (pat @ ys) (length pat - 1)) (charAt (pat @ ys) (length pat))"
      using pat y
      by (cases ys) (simp_all add: charAt_append_last charAt_append_next charAt_last charAt_end
          wordBoundary_def isWordAt_def)
    show "matchesAt pat prev (c # cs)"
      using pat(1) 1 2 3 by (simp add: matchesAt_def s)
  qed
  then show ?thesis using takeWhile_run [OF pat(2), of "c # cs"] t by simp
qed

lemma replaceFrom_match:
  assumes "matchesAt pat prev (c # cs)" and "c # takeWhile isWord cs = pat"
  shows "\<exists>prev'. replaceFrom pat rep prev (c # cs)
           = rep @ replaceFrom pat rep prev' (dropWhile isWord cs)"
proof -
  have "length pat - 1 = length (takeWhile isWord cs)" using assms(2) by auto
  then have "drop (length pat - 1) cs = dropWhile isWord cs"
    using takeWhile_dropWhile_id [of isWord cs]
    by (metis append_eq_conv_conj)
  then show ?thesis using assms(1) by auto
qed

lemma replaceFrom_inword:
  "isWordAt prev \<Longrightarrow>
     \<exists>prev'. replaceFrom pat rep prev xs
       = takeWhile isWord xs @ replaceFrom pat rep prev' (dropWhile isWord xs)"
proof (induction xs arbitrary: prev)
  case Nil
  then show ?case by simp
next
  case (Cons x xs)
  show ?case
  proof (cases "isWord x")
    case True
    have "isWordAt (Some x)" using True by (simp add: isWordAt_def)
    from Cons.IH [OF this] obtain prev' where
      "replaceFrom pat rep (Some x) xs
         = takeWhile isWord xs @ replaceFrom pat rep prev' (dropWhile isWord xs)" by blast
    then show ?thesis
      using True matchesAt_inword [OF Cons.prems True, of pat xs] by auto
  next
    case False
    then show ?thesis by auto
  qed
qed

lemma testFrom_inword:
  "isWordAt prev \<Longrightarrow> \<exists>prev'. testFrom pat prev xs = testFrom pat prev' (dropWhile isWord xs)"
proof (induction xs arbitrary: prev)
  case Nil
  then show ?case by simp
next
  case (Cons x xs)
  show ?case
  proof (cases "isWord x")
    case True
    have "isWordAt (Some x)" using True by (simp add: isWordAt_def)
    from Cons.IH [OF this] obtain prev' where
      "testFrom pat (Some x) xs = testFrom pat prev' (dropWhile isWord xs)" by blast
    then show ?thesis
      using True matchesAt_inword [OF Cons.prems True, of pat xs] by auto
  next
    case False
    then show ?thesis by auto
  qed
qed

lemma replaceFrom_wordRuns:
  assumes pat: "pat \<noteq> []" "\<forall>c \<in> set pat. isWord c"
  shows "\<not> isWordAt prev \<or> s = [] \<or> \<not> isWord (hd s) \<Longrightarrow>
     replaceFrom pat rep prev s
       = concat (map (\<lambda>run. if run = pat then rep else run) (wordRuns s))"
proof (induction s arbitrary: prev rule: wordRuns.induct)
  case 1
  then show ?case by simp
next
  case (2 c cs)
  let ?f = "\<lambda>run. if run = pat then rep else run"
  let ?rest = "dropWhile isWord cs"
  show ?case
  proof (cases "isWord c")
    case False
    have n: "[c] \<noteq> pat" using False pat(2) by auto
    have "\<not> isWordAt (Some c)" using False by (simp add: isWordAt_def)
    then have "replaceFrom pat rep (Some c) cs = concat (map ?f (wordRuns cs))"
      using "2.IH"(2) [OF False] by blast
    then show ?thesis
      using False n matchesAt_nonword [OF pat(2) False, of prev cs] by simp
  next
    case True
    then have p: "\<not> isWordAt prev" using "2.prems" by simp
    have r: "?rest = [] \<or> \<not> isWord (hd ?rest)" using hd_dropWhile [of isWord cs] by blast
    have ih: "replaceFrom pat rep prev' ?rest = concat (map ?f (wordRuns ?rest))" for prev'
      using "2.IH"(1) [OF True] r by blast
    show ?thesis
    proof (cases "c # takeWhile isWord cs = pat")
      case eq: True
      then have "matchesAt pat prev (c # cs)" using matchesAt_run [OF pat p True] by blast
      from replaceFrom_match [OF this eq] obtain prev' where
        "replaceFrom pat rep prev (c # cs) = rep @ replaceFrom pat rep prev' ?rest" by blast
      then show ?thesis using True eq ih by simp
    next
      case ne: False
      then have m: "\<not> matchesAt pat prev (c # cs)" using matchesAt_run [OF pat p True] by blast
      have "isWordAt (Some c)" using True by (simp add: isWordAt_def)
      from replaceFrom_inword [OF this] obtain prev' where
        "replaceFrom pat rep (Some c) cs
           = takeWhile isWord cs @ replaceFrom pat rep prev' ?rest" by blast
      then show ?thesis using True ne m ih by simp
    qed
  qed
qed

lemma testFrom_wordRuns:
  assumes pat: "pat \<noteq> []" "\<forall>c \<in> set pat. isWord c"
  shows "\<not> isWordAt prev \<or> s = [] \<or> \<not> isWord (hd s) \<Longrightarrow>
     testFrom pat prev s = (pat \<in> set (wordRuns s))"
proof (induction s arbitrary: prev rule: wordRuns.induct)
  case 1
  then show ?case by simp
next
  case (2 c cs)
  let ?rest = "dropWhile isWord cs"
  show ?case
  proof (cases "isWord c")
    case False
    have n: "[c] \<noteq> pat" using False pat(2) by auto
    have "\<not> isWordAt (Some c)" using False by (simp add: isWordAt_def)
    then have "testFrom pat (Some c) cs = (pat \<in> set (wordRuns cs))"
      using "2.IH"(2) [OF False] by blast
    then show ?thesis
      using False n matchesAt_nonword [OF pat(2) False, of prev cs] by auto
  next
    case True
    then have p: "\<not> isWordAt prev" using "2.prems" by simp
    have r: "?rest = [] \<or> \<not> isWord (hd ?rest)" using hd_dropWhile [of isWord cs] by blast
    have ih: "testFrom pat prev' ?rest = (pat \<in> set (wordRuns ?rest))" for prev'
      using "2.IH"(1) [OF True] r by blast
    have "isWordAt (Some c)" using True by (simp add: isWordAt_def)
    from testFrom_inword [OF this] obtain prev' where
      "testFrom pat (Some c) cs = testFrom pat prev' ?rest" by blast
    then show ?thesis using True matchesAt_run [OF pat p True] ih by auto
  qed
qed

lemma word_patterns:
  "\<forall>c \<in> set ''npm''. isWord c" "\<forall>c \<in> set ''pip''. isWord c"
  by (simp_all add: isWord_def isLowerAZ_def code_def)

lemma replaceWord_npm: "replaceWord ''npm'' rep s = replaceWholeWord ''npm'' rep s"
  using replaceFrom_wordRuns [OF _ word_patterns(1), of None s rep]
  by (simp add: replaceWord_def replaceWholeWord_def isWordAt_def)

lemma testWord_pip: "testWord ''pip'' s = hasWholeWord ''pip'' s"
  using testFrom_wordRuns [OF _ word_patterns(2), of None s]
  by (simp add: testWord_def hasWholeWord_def isWordAt_def)

subsection \<open>Lowering and the letters of npm\<close>

lemma toLowerChar_eq:
  assumes "97 \<le> code l" and "code l \<le> 122" and "code u + 32 = code l"
  shows "toLowerChar a = l \<longleftrightarrow> a = l \<or> a = u"
proof -
  have lt: "code a < 256" by (rule code_lt)
  show ?thesis
  proof (cases "isUpperAZ a \<or> (192 \<le> code a \<and> code a \<le> 222 \<and> code a \<noteq> 215)")
    case True
    then have e: "code (toLowerChar a) = code a + 32"
      using lt by (auto simp: toLowerChar_def code_char_of isUpperAZ_def)
    have r: "code a \<le> 90 \<or> 192 \<le> code a"
      using True unfolding isUpperAZ_def by blast
    have "code a \<noteq> code l" using r assms(1,2) by linarith
    then have n: "a \<noteq> l" by (simp only: code_CHR [of a l] not_False_eq_True)
    have "toLowerChar a = l \<longleftrightarrow> code a + 32 = code l"
      by (simp only: code_CHR [of "toLowerChar a" l] e)
    also have "\<dots> \<longleftrightarrow> code a = code u" using assms(3) by linarith
    also have "\<dots> \<longleftrightarrow> a = u" by (simp only: code_CHR [of a u])
    finally show ?thesis using n by blast
  next
    case False
    then have s: "toLowerChar a = a" unfolding toLowerChar_def by (simp only: if_False)
    have "\<not> isUpperAZ a" using False by blast
    then have "code a < 65 \<or> 90 < code a" unfolding isUpperAZ_def by linarith
    then have "code a \<noteq> code u" using assms by linarith
    then have "a \<noteq> u" by (simp only: code_CHR [of a u] not_False_eq_True)
    then show ?thesis using s by simp
  qed
qed

lemma toLowerChar_space: "toLowerChar a = CHR '' '' \<longleftrightarrow> a = CHR '' ''"
proof -
  have lt: "code a < 256" by (rule code_lt)
  show ?thesis
  proof (cases "isUpperAZ a \<or> (192 \<le> code a \<and> code a \<le> 222 \<and> code a \<noteq> 215)")
    case True
    then have "code (toLowerChar a) = code a + 32"
      using lt by (auto simp: toLowerChar_def code_char_of isUpperAZ_def)
    moreover have "code (CHR '' '') = 32" by (simp add: code_def)
    ultimately show ?thesis
      using True unfolding code_CHR [of _ "CHR '' ''"] by (auto simp: isUpperAZ_def)
  next
    case False
    then have "toLowerChar a = a" unfolding toLowerChar_def by (simp only: if_False)
    then show ?thesis by simp
  qed
qed

lemma toLowerChar_npm:
  "toLowerChar a = CHR ''n'' \<longleftrightarrow> a = CHR ''n'' \<or> a = CHR ''N''"
  "toLowerChar a = CHR ''p'' \<longleftrightarrow> a = CHR ''p'' \<or> a = CHR ''P''"
  "toLowerChar a = CHR ''m'' \<longleftrightarrow> a = CHR ''m'' \<or> a = CHR ''M''"
proof -
  have c: "code (CHR ''n'') = 110" "code (CHR ''N'') = 78" "code (CHR ''p'') = 112"
    "code (CHR ''P'') = 80" "code (CHR ''m'') = 109" "code (CHR ''M'') = 77"
    by (simp_all add: code_def)
  show "toLowerChar a = CHR ''n'' \<longleftrightarrow> a = CHR ''n'' \<or> a = CHR ''N''"
    by (rule toLowerChar_eq) (simp_all add: c)
  show "toLowerChar a = CHR ''p'' \<longleftrightarrow> a = CHR ''p'' \<or> a = CHR ''P''"
    by (rule toLowerChar_eq) (simp_all add: c)
  show "toLowerChar a = CHR ''m'' \<longleftrightarrow> a = CHR ''m'' \<or> a = CHR ''M''"
    by (rule toLowerChar_eq) (simp_all add: c)
qed

lemma map_eq_append3:
  assumes "map f s = xs @ p @ ys"
  shows "\<exists>us vs ws. s = us @ vs @ ws \<and> map f vs = p"
proof -
  have "map f (take (length xs) s) @ map f (take (length p) (drop (length xs) s))
          @ map f (drop (length p) (drop (length xs) s)) = xs @ p @ ys"
    using assms by (simp only: map_append [symmetric] append_take_drop_id)
  moreover have "length (map f (take (length xs) s)) = length xs"
    using arg_cong [OF assms, of length] by simp
  moreover have "length (map f (take (length p) (drop (length xs) s))) = length p"
    using arg_cong [OF assms, of length] by simp
  ultimately have "map f (take (length p) (drop (length xs) s)) = p"
    by (metis append_eq_append_conv)
  moreover have "s = take (length xs) s @ take (length p) (drop (length xs) s)
      @ drop (length p) (drop (length xs) s)"
    by (simp only: append_take_drop_id)
  ultimately show ?thesis by blast
qed

lemma mentionsNpm_iff:
  "mentionsNpm cmd \<longleftrightarrow>
     (\<exists>xs a b c ys. cmd = xs @ [a, b, c, CHR '' ''] @ ys
        \<and> (a = CHR ''n'' \<or> a = CHR ''N'') \<and> (b = CHR ''p'' \<or> b = CHR ''P'')
        \<and> (c = CHR ''m'' \<or> c = CHR ''M''))"
proof
  assume "mentionsNpm cmd"
  then have "\<exists>xs ys. map toLowerChar cmd = xs @ ''npm '' @ ys"
    unfolding mentionsNpm_def toLowerCase_def includesStr_iff .
  then obtain xs ys where m: "map toLowerChar cmd = xs @ ''npm '' @ ys"
    by (elim exE)
  from map_eq_append3 [OF m] obtain us vs ws
    where c: "cmd = us @ vs @ ws" and v: "map toLowerChar vs = ''npm ''"
    by (elim exE conjE)
  have "length vs = 4" using arg_cong [OF v, of length] by simp
  then have "\<exists>a b c d. vs = [a, b, c, d]"
    by (auto simp: length_Suc_conv numeral_eq_Suc)
  then obtain a b c d where vs: "vs = [a, b, c, d]" by (elim exE)
  have l: "toLowerChar a = CHR ''n''" "toLowerChar b = CHR ''p''" "toLowerChar c = CHR ''m''"
      "toLowerChar d = CHR '' ''"
    using v unfolding vs by simp_all
  have "d = CHR '' ''" using l(4) by (simp only: toLowerChar_space)
  then have "cmd = us @ [a, b, c, CHR '' ''] @ ws" using c vs by simp
  then show "\<exists>xs a b c ys. cmd = xs @ [a, b, c, CHR '' ''] @ ys
        \<and> (a = CHR ''n'' \<or> a = CHR ''N'') \<and> (b = CHR ''p'' \<or> b = CHR ''P'')
        \<and> (c = CHR ''m'' \<or> c = CHR ''M'')"
    using l(1,2,3) unfolding toLowerChar_npm by blast
next
  assume "\<exists>xs a b c ys. cmd = xs @ [a, b, c, CHR '' ''] @ ys
        \<and> (a = CHR ''n'' \<or> a = CHR ''N'') \<and> (b = CHR ''p'' \<or> b = CHR ''P'')
        \<and> (c = CHR ''m'' \<or> c = CHR ''M'')"
  then obtain xs a b c ys where cmd: "cmd = xs @ [a, b, c, CHR '' ''] @ ys"
    and l: "toLowerChar a = CHR ''n''" "toLowerChar b = CHR ''p''" "toLowerChar c = CHR ''m''"
    unfolding toLowerChar_npm by blast
  have "toLowerChar (CHR '' '') = CHR '' ''" by (simp only: toLowerChar_space)
  then have "toLowerCase cmd = map toLowerChar xs @ ''npm '' @ map toLowerChar ys"
    using cmd l by (simp add: toLowerCase_def)
  then show "mentionsNpm cmd" unfolding mentionsNpm_def includesStr_iff by blast
qed

text \<open>
  Claim C6, as stated: the rules of pip apply ``otherwise'', when the command does not
  mention an npm invocation. The two blocks of \<^verbatim>\<open>buildSuggestion\<close> are two statements
  \<^verbatim>\<open>if\<close>, one after the other, and the first returns only under one of its three
  flavours: for a command that mentions npm and pip, in a directory of poetry alone, the
  stated policy makes no suggestion and the function suggests \<^verbatim>\<open>poetry install\<close>.
\<close>

theorem buildSuggestion_policy_counterexample:
  "mentionsNpm mixedCommand
   \<and> hasWholeWord ''pip'' (toLowerCase mixedCommand)
   \<and> claimedPolicy mixedCommand poetryOnly (Some ''install'') = None
   \<and> buildSuggestion mixedCommand [] poetryOnly (Some ''install'') = Some ''poetry install''"
  by code_simp

text \<open>
  Claim C6, amended. \<^verbatim>\<open>buildSuggestion\<close> is the first-match-wins policy in which the
  rules of pip are tried whenever no rule of npm made a suggestion, also for a command
  that mentions an npm invocation: with such a command, bun comes first (\<^verbatim>\<open>bun install\<close>
  for the key \<^verbatim>\<open>install\<close>, \<^verbatim>\<open>bun run dev\<close> for the key \<^verbatim>\<open>run\<close>, otherwise the command
  with every whole word \<^verbatim>\<open>npm\<close> replaced by \<^verbatim>\<open>bun\<close>), then yarn, then pnpm; then, when
  the lowered command has \<^verbatim>\<open>pip\<close> as a whole word, poetry gives \<^verbatim>\<open>poetry install\<close>,
  else pipenv gives \<^verbatim>\<open>pipenv install\<close>; otherwise there is no suggestion. It differs
  from the stated policy exactly for the commands that mention npm and have the whole
  word \<^verbatim>\<open>pip\<close>, with none of bun, yarn and pnpm and one of poetry and pipenv. A command
  mentions an npm invocation when it contains the letters n, p, m, each in either case,
  and a space after them. The replacement of \<^verbatim>\<open>npm\<close> looks at the command as it was
  written, not lowered.
\<close>

theorem buildSuggestion_policy:
  "buildSuggestion cmd err fl key = fallThroughPolicy cmd fl key
   \<and> (buildSuggestion cmd err fl key = claimedPolicy cmd fl key
        \<longleftrightarrow> \<not> (mentionsNpm cmd \<and> \<not> bun fl \<and> \<not> yarn fl \<and> \<not> pnpm fl
               \<and> hasWholeWord ''pip'' (toLowerCase cmd) \<and> (poetry fl \<or> pipenv fl)))
   \<and> (mentionsNpm cmd \<longleftrightarrow>
        (\<exists>xs a b c ys. cmd = xs @ [a, b, c, CHR '' ''] @ ys
           \<and> (a = CHR ''n'' \<or> a = CHR ''N'') \<and> (b = CHR ''p'' \<or> b = CHR ''P'')
           \<and> (c = CHR ''m'' \<or> c = CHR ''M'')))
   \<and> replaceWord ''npm'' ''bun'' cmd = replaceWholeWord ''npm'' ''bun'' cmd
   \<and> testWord ''pip'' (toLowerCase cmd) = hasWholeWord ''pip'' (toLowerCase cmd)"
proof -
  have ft: "buildSuggestion cmd err fl key = fallThroughPolicy cmd fl key"
    by (simp add: buildSuggestion_def fallThroughPolicy_def pipSuggestion_def npmRules_def
        pipRules_def mentionsNpm_def Let_def replaceWord_npm testWord_pip)
  have "buildSuggestion cmd err fl key = claimedPolicy cmd fl key
        \<longleftrightarrow> \<not> (mentionsNpm cmd \<and> \<not> bun fl \<and> \<not> yarn fl \<and> \<not> pnpm fl
               \<and> hasWholeWord ''pip'' (toLowerCase cmd) \<and> (poetry fl \<or> pipenv fl))"
    unfolding ft
    by (auto simp: fallThroughPolicy_def claimedPolicy_def npmRules_def pipRules_def)
  then show ?thesis
    using ft mentionsNpm_iff replaceWord_npm testWord_pip by blast
qed

text \<open>
  One run of each kind: bun before yarn, yarn before pnpm, pnpm before poetry, poetry
  before pipenv, pipenv after an npm command without a JavaScript flavour, and no
  suggestion for \<^verbatim>\<open>pipx\<close>, where \<^verbatim>\<open>pip\<close> is not a whole word; a command in capitals,
  which mentions npm and in which no \<^verbatim>\<open>npm\<close> is replaced; a command with three whole
  words \<^verbatim>\<open>npm\<close>, all replaced, and \<^verbatim>\<open>npmx\<close>, which is kept; \<^verbatim>\<open>PIP\<close> in capitals; and
  the command of npm and pip.
\<close>

theorem buildSuggestion_policy_witness:
  "buildSuggestion ''npm test'' [] (noFlavor\<lparr>bun := True, yarn := True\<rparr>) (Some ''test'') = Some ''bun test''
  \<and> buildSuggestion ''npm run build'' [] (noFlavor\<lparr>yarn := True, pnpm := True\<rparr>) (Some ''build'') = Some ''yarn build''
  \<and> buildSuggestion ''npm i'' [] (noFlavor\<lparr>pnpm := True, poetry := True\<rparr>) (Some ''install'') = Some ''pnpm install''
  \<and> buildSuggestion ''pip install x'' [] (noFlavor\<lparr>poetry := True, pipenv := True\<rparr>) (Some ''install'') = Some ''poetry install''
  \<and> buildSuggestion ''npm run pip'' [] (noFlavor\<lparr>pipenv := True\<rparr>) (Some ''run'') = Some ''pipenv install''
  \<and> buildSuggestion ''pipx run'' [] (noFlavor\<lparr>pipenv := True\<rparr>) (Some ''run'') = None
  \<and> buildSuggestion ''NPM install'' [] bunOnly (Some ''install'') = Some ''bun install''
  \<and> buildSuggestion ''NPM ci'' [] bunOnly (Some ''ci'') = Some ''NPM ci''
  \<and> buildSuggestion ''npm i npmx && npm-check; npm ls'' [] bunOnly (Some ''check'')
      = Some ''bun i npmx && bun-check; bun ls''
  \<and> buildSuggestion ''PIP install x'' [] poetryOnly None = Some ''poetry install''
  \<and> buildSuggestion mixedCommand [] poetryOnly (Some ''install'') = Some ''poetry install''"
proof -
  have policy_examples:
    "fallThroughPolicy ''npm test'' (noFlavor\<lparr>bun := True, yarn := True\<rparr>) (Some ''test'') = Some ''bun test''"
    "fallThroughPolicy ''npm run build'' (noFlavor\<lparr>yarn := True, pnpm := True\<rparr>) (Some ''build'') = Some ''yarn build''"
    "fallThroughPolicy ''npm i'' (noFlavor\<lparr>pnpm := True, poetry := True\<rparr>) (Some ''install'') = Some ''pnpm install''"
    "fallThroughPolicy ''pip install x'' (noFlavor\<lparr>poetry := True, pipenv := True\<rparr>) (Some ''install'') = Some ''poetry install''"
    "fallThroughPolicy ''npm run pip'' (noFlavor\<lparr>pipenv := True\<rparr>) (Some ''run'') = Some ''pipenv install''"
    "fallThroughPolicy ''pipx run'' (noFlavor\<lparr>pipenv := True\<rparr>) (Some ''run'') = None"
    "fallThroughPolicy ''NPM install'' bunOnly (Some ''install'') = Some ''bun install''"
    "fallThroughPolicy ''NPM ci'' bunOnly (Some ''ci'') = Some ''NPM ci''"
    "fallThroughPolicy ''npm i npmx && npm-check; npm ls'' bunOnly (Some ''check'')
       = Some ''bun i npmx && bun-check; bun ls''"
    "fallThroughPolicy ''PIP install x'' poetryOnly None = Some ''poetry install''"
    "fallThroughPolicy mixedCommand poetryOnly (Some ''install'') = Some ''poetry install''"
    by code_simp+
  have code:
    "buildSuggestion ''NPM install'' [] bunOnly (Some ''install'') = Some ''bun install''"
    "buildSuggestion ''NPM ci'' [] bunOnly (Some ''ci'') = Some ''NPM ci''"
    "buildSuggestion ''npm i npmx && npm-check; npm ls'' [] bunOnly (Some ''check'')
       = Some ''bun i npmx && bun-check; bun ls''"
    "buildSuggestion ''PIP install x'' [] poetryOnly None = Some ''poetry install''"
    "buildSuggestion ''pipx run'' [] (noFlavor\<lparr>pipenv := True\<rparr>) (Some ''run'') = None"
    by code_simp+
  show ?thesis
    using buildSuggestion_policy [of "''npm test''" "[]" "noFlavor\<lparr>bun := True, yarn := True\<rparr>" "Some ''test''"]
     buildSuggestion_policy [of "''npm run build''" "[]" "noFlavor\<lparr>yarn := True, pnpm := True\<rparr>" "Some ''build''"]
     buildSuggestion_policy [of "''npm i''" "[]" "noFlavor\<lparr>pnpm := True, poetry := True\<rparr>" "Some ''install''"]
     buildSuggestion_policy [of "''pip install x''" "[]" "noFlavor\<lparr>poetry := True, pipenv := True\<rparr>" "Some ''install''"]
     buildSuggestion_policy [of "''npm run pip''" "[]" "noFlavor\<lparr>pipenv := True\<rparr>" "Some ''run''"]
     buildSuggestion_policy [of "''pipx run''" "[]" "noFlavor\<lparr>pipenv := True\<rparr>" "Some ''run''"]
     buildSuggestion_policy [of "''NPM install''" "[]" bunOnly "Some ''install''"]
     buildSuggestion_policy [of "''NPM ci''" "[]" bunOnly "Some ''ci''"]
     buildSuggestion_policy [of "''npm i npmx && npm-check; npm ls''" "[]" bunOnly "Some ''check''"]
     buildSuggestion_policy [of "''PIP install x''" "[]" poetryOnly None]
     buildSuggestion_policy [of mixedCommand "[]" poetryOnly "Some ''install''"]
      code
    by (simp only: policy_examples)
qed

subsection \<open>A suggestion that repeats the command\<close>

lemma replaceFrom_no_match:
  "\<not> testFrom pat prev s \<Longrightarrow> replaceFrom pat rep prev s = s"
  by (induction s arbitrary: prev) auto

lemma toLowerCase_npm_run: "toLowerCase ''npm run'' = ''npm run''"
  by (simp add: toLowerCase_def toLowerChar_def isUpperAZ_def code_def)

text \<open>
  Claim C10. The suggestion can be the failed command itself: for every command whose
  lowered text contains \<^verbatim>\<open>"npm "\<close> and no whole-word occurrence of \<^verbatim>\<open>npm run\<close>, with
  bun false, yarn true and a key other than \<^verbatim>\<open>install\<close>, the replacement of the yarn
  branch changes nothing and the command is returned as the suggestion.
\<close>

theorem buildSuggestion_echo:
  assumes "includesStr (toLowerCase cmd) ''npm ''"
    and "\<not> testWord ''npm run'' (toLowerCase cmd)"
    and "\<not> bun fl" and "yarn fl" and "key \<noteq> Some ''install''"
  shows "replaceWord ''npm run'' ''yarn'' cmd = cmd
       \<and> buildSuggestion cmd err fl key = Some cmd"
proof -
  have "\<not> testWord ''npm run'' cmd"
    using assms(2) testWord_lower [OF _ toLowerCase_npm_run] by blast
  then have r: "replaceWord ''npm run'' ''yarn'' cmd = cmd"
    by (simp add: replaceWord_def testWord_def replaceFrom_no_match)
  show ?thesis
    using assms r by (simp add: buildSuggestion_def Let_def)
qed

theorem buildSuggestion_echo_witness:
  "includesStr (toLowerCase ''npm test'') ''npm ''
   \<and> \<not> testWord ''npm run'' (toLowerCase ''npm test'')
   \<and> \<not> bun yarnOnly \<and> yarn yarnOnly \<and> Some ''test'' \<noteq> Some ''install''
   \<and> buildSuggestion ''npm test'' ''sh: npm: not found'' yarnOnly (Some ''test'') = Some ''npm test''"
proof -
  have a: "includesStr (toLowerCase ''npm test'') ''npm ''"
    and b: "\<not> testWord ''npm run'' (toLowerCase ''npm test'')"
    by code_simp+
  have c: "\<not> bun yarnOnly" and d: "yarn yarnOnly"
    by (simp_all add: yarnOnly_def noFlavor_def)
  have e: "Some ''test'' \<noteq> Some ''install''" by simp
  show ?thesis
    using a b c d e buildSuggestion_echo [OF a b c d e, of "''sh: npm: not found''"]
    by simp
qed

section \<open>The handler of executeCommand\<close>







text \<open>The resolver reads the command-key file only; loading the other file changes
  neither its result nor the list of runs.\<close>

lemma resolve_after_load:
  "fst (resolveProjectCommand rt p k (snd (loadJsonCommandMap fb w)))
     = fst (resolveProjectCommand rt p k w)"
  by (simp add: resolveProjectCommand_def loadJsonProjectCommands_def loadJsonCommandMap_def
      split: option.splits sum.splits)

lemma resolve_spawned:
  "spawned (snd (resolveProjectCommand rt p k w)) = spawned w"
  by (simp add: resolveProjectCommand_def loadJsonProjectCommands_def
      split: option.splits sum.splits)



text \<open>
  When the resolver returns the empty string, the handler answers that no mapping was
  found and hands nothing to the shell.
\<close>

lemma executeCommand_empty_resolved:
  assumes "fst (resolveProjectCommand (objectPrototype e) p k w) = Inr (Some (Str []))"
  shows "fst (executeCommand e p k args w) = Inr (notFound k)
       \<and> spawned (snd (executeCommand e p k args w)) = spawned w"
proof -
  obtain m w1 where l: "loadJsonCommandMap (Some []) w = (m, w1)"
    by (cases "loadJsonCommandMap (Some []) w")
  have w1: "spawned w1 = spawned w"
    using loadJsonCommandMap_keeps(2) [of "Some []" w] l by simp
  obtain w2 where res: "resolveProjectCommand (objectPrototype e) p k w1 = (Inr (Some (Str [])), w2)"
    using resolve_after_load [of "objectPrototype e" p k "Some []" w] l assms
    by (cases "resolveProjectCommand (objectPrototype e) p k w1") simp
  have w2: "spawned w2 = spawned w"
    using resolve_spawned [of "objectPrototype e" p k w1] res w1 by simp
  show ?thesis using w2 by (simp add: executeCommand_def l res truthyValue_def)
qed

text \<open>
  Claim C9. The claim: for every project name and key whose stored mapping, the project's
  own or else the one of \<^verbatim>\<open>"default"\<close>, is the empty string, \<^verbatim>\<open>executeCommand\<close>
  returns the payload of \<^verbatim>\<open>COMMAND_NOT_FOUND\<close> and runs nothing. The handler does treat
  an empty resolved command as missing (the lemma above), and for the project \<^verbatim>\<open>p\<close> the
  claim holds. But the resolver's plain lookups do not return the stored mapping for every
  project name: with the empty string stored under \<^verbatim>\<open>default\<close> and \<^verbatim>\<open>name\<close>, and no
  sub-mapping for the project \<^verbatim>\<open>constructor\<close>, the stored mapping of
  (\<^verbatim>\<open>constructor\<close>, \<^verbatim>\<open>name\<close>) is the empty string of \<^verbatim>\<open>default\<close>, yet the resolver
  returns the name of the function \<^verbatim>\<open>Object\<close>, and the handler runs it.
\<close>

theorem executeCommand_inherited_name:
  "ownEntry nameTable ''constructor'' ''name'' = None
   \<and> ownEntry nameTable ''default'' ''name'' = Some []
   \<and> fst (executeCommand (exampleEnv linux noFlavor 127) ''p'' ''name'' None
            (storedWorld nameTable))
       = Inr (NotFound ''COMMAND_NOT_FOUND''
                (''No command mapping found for key '' @ [dquote] @ ''name'' @ [dquote]))
   \<and> spawned (snd (executeCommand (exampleEnv linux noFlavor 127) ''p'' ''name'' None
            (storedWorld nameTable))) = []
   \<and> fst (executeCommand (exampleEnv linux noFlavor 127) ''constructor'' ''name'' None
            (storedWorld nameTable))
       = Inr (Failed ''COMMAND_FAILED'' ''Command failed with exit code 127'' None ''Object''
                \<lparr>stdout = [], stderr = [], exitCode = 127\<rparr>)
   \<and> spawned (snd (executeCommand (exampleEnv linux noFlavor 127) ''constructor'' ''name'' None
            (storedWorld nameTable))) = [''Object'']"
  by code_simp

end
